theory Spec2Isabelle
  imports Complex_Main "HOL-Library.Word" "HOL-Library.Log_Nat"
begin

section \<open>TinyG configuration subsystem (firmware/tinyg/config.c)\<close>

text \<open>
  A shallow embedding of \<^verbatim>\<open>config.c\<close>: the descriptor table, the config node
  (\<^verbatim>\<open>nvObj_t\<close>), the generic typed accessors, the gatekeepers, the token resolver,
  the shared string arena, the node list and the boot-time defaults sequencer.

  Conventions of the model.
  \<^item> A function of the source that takes \<^verbatim>\<open>nvObj_t *nv\<close> and mutates it takes the node
    and returns the updated node; a function that walks the node list takes the position
    of the node in \<^verbatim>\<open>nv_list\<close>.
  \<^item> A result of type \<open>option\<close> is \<open>None\<close> exactly where the C text leaves the
    outcome open: an access outside an array, a floating-point to integer conversion
    whose integral part does not fit the target type, or a read of bytes behind a
    string terminator that the model does not track.
  \<^item> The memory slots a descriptor points to (\<^verbatim>\<open>target\<close>) are kept in one heap per C
    type, addressed by a natural number; a \<^verbatim>\<open>uint8_t\<close> slot and a \<^verbatim>\<open>float\<close> slot
    never overlap.
\<close>

subsection \<open>Single precision floating point\<close>

text \<open>
  \<^verbatim>\<open>nv->value\<close> is a C \<^verbatim>\<open>float\<close>. The target is the 8-bit AVR, where \<^verbatim>\<open>double\<close> is
  the same 32-bit format. A float is modelled by the rational number it denotes, or
  one of the three special values; the sign of zero and the payload of a NaN are not
  kept. \<open>round32\<close> rounds a rational to the nearest binary32 value, ties to even,
  with gradual underflow and overflow to infinity.
\<close>

datatype float = Finite rat | PInf | NInf | NaN

definition pow2 :: "int \<Rightarrow> rat" where
  "pow2 e = (if 0 \<le> e then 2 ^ nat e else 1 / 2 ^ nat (- e))"

text \<open>\<open>ilog2 a\<close> is the integer part of the binary logarithm of a positive rational.\<close>

definition ilog2 :: "rat \<Rightarrow> int" where
  "ilog2 a = (if 1 \<le> a then bitlen \<lfloor>a\<rfloor> - 1 else - bitlen (\<lceil>1 / a\<rceil> - 1))"

definition round_half_even :: "rat \<Rightarrow> int" where
  "round_half_even q =
     (let f = \<lfloor>q\<rfloor>; r = q - of_int f
      in if r < 1 / 2 then f else if 1 / 2 < r then f + 1 else if even f then f else f + 1)"

definition round32 :: "rat \<Rightarrow> float" where
  "round32 q =
     (if q = 0 then Finite 0
      else let a = \<bar>q\<bar>;
               e = max (ilog2 a) (- 126);
               ulp = pow2 (e - 23);
               r = of_int (round_half_even (a / ulp)) * ulp
           in if pow2 128 \<le> r then (if 0 < q then PInf else NInf)
              else Finite (if 0 < q then r else - r))"

text \<open>\<^verbatim>\<open>(float) n\<close> for an unsigned integer \<open>n\<close>.\<close>

definition float_of_int :: "int \<Rightarrow> float" where
  "float_of_int n = round32 (of_int n)"

text \<open>
  \<^verbatim>\<open>(uint8_t) v\<close> and \<^verbatim>\<open>(uint32_t) v\<close>: the value is truncated towards zero; the
  conversion is defined only if the truncated value fits the \<open>bits\<close>-bit unsigned
  type (C11 6.3.1.4).
\<close>

definition float_to_uint :: "nat \<Rightarrow> float \<Rightarrow> int option" where
  "float_to_uint bits v =
     (case v of
        Finite q \<Rightarrow> if - 1 < q \<and> q < 2 ^ bits then Some (if 0 \<le> q then \<lfloor>q\<rfloor> else 0) else None
      | _ \<Rightarrow> None)"

text \<open>\<^verbatim>\<open>a > b\<close> and \<^verbatim>\<open>a != b\<close> on floats: every comparison with a NaN is unordered.\<close>

fun float_gt :: "float \<Rightarrow> float \<Rightarrow> bool" where
  "float_gt NaN _ = False"
| "float_gt _ NaN = False"
| "float_gt (Finite a) (Finite b) = (b < a)"
| "float_gt PInf b = (b \<noteq> PInf)"
| "float_gt a NInf = (a \<noteq> NInf)"
| "float_gt _ _ = False"

definition float_ne :: "float \<Rightarrow> float \<Rightarrow> bool" where
  "float_ne a b = (a = NaN \<or> b = NaN \<or> a \<noteq> b)"

text \<open>\<^verbatim>\<open>a * b\<close> in single precision.\<close>

fun float_mul :: "float \<Rightarrow> float \<Rightarrow> float" where
  "float_mul NaN _ = NaN"
| "float_mul _ NaN = NaN"
| "float_mul (Finite a) (Finite b) = round32 (a * b)"
| "float_mul (Finite a) PInf = (if a = 0 then NaN else if 0 < a then PInf else NInf)"
| "float_mul (Finite a) NInf = (if a = 0 then NaN else if 0 < a then NInf else PInf)"
| "float_mul PInf (Finite b) = (if b = 0 then NaN else if 0 < b then PInf else NInf)"
| "float_mul NInf (Finite b) = (if b = 0 then NaN else if 0 < b then NInf else PInf)"
| "float_mul PInf PInf = PInf"
| "float_mul NInf NInf = PInf"
| "float_mul PInf NInf = NInf"
| "float_mul NInf PInf = NInf"

text \<open>
  A rational is a binary32 integer if it is a natural number with at most 24
  significant bits.
\<close>

definition is_float_int :: "int \<Rightarrow> bool" where
  "is_float_int n = (\<exists>m k. n = m * 2 ^ k \<and> 0 \<le> m \<and> m < 2 ^ 24)"

subsection \<open>Status codes, value kinds, descriptors and nodes\<close>

datatype stat_t =
    STAT_OK
  | STAT_NOOP
  | STAT_INTERNAL_RANGE_ERROR
  | STAT_INPUT_VALUE_UNSUPPORTED
  | STAT_BUFFER_FULL
  | STAT_UNRECOGNIZED_COMMAND

datatype valueType =
    TYPE_EMPTY
  | TYPE_NULL
  | TYPE_PARENT
  | TYPE_INTEGER
  | TYPE_DATA
  | TYPE_FLOAT
  | TYPE_STRING

datatype units = INCHES | MILLIMETERS

text \<open>The flag bits of a descriptor, as the set of the bits that are on.\<close>

datatype flag = F_INITIALIZE | F_PERSIST | F_NOSTRIP

text \<open>
  The \<^verbatim>\<open>get\<close> and \<^verbatim>\<open>set\<close> members of a descriptor are function pointers. The
  model binds the generic scalar accessors that \<^verbatim>\<open>config.c\<close> defines; the application's
  own accessors live in other files. (\<^verbatim>\<open>get_data\<close> and \<^verbatim>\<open>set_data\<close> reinterpret the
  bits of a float and are outside this model of floats.)
\<close>

datatype fptrCmd =
    Get_nul | Get_ui8 | Get_int | Get_flt | Get_flu
  | Set_nul | Set_ui8 | Set_01 | Set_012 | Set_0123 | Set_int | Set_flt | Set_flu

record cfgItem_t =
  group :: string
  token :: string
  flags :: "flag set"
  precision :: int
  get_f :: fptrCmd
  set_f :: fptrCmd
  target :: nat
  def_value :: float

text \<open>
  The node. \<open>pv\<close> and \<open>nx\<close> are positions in \<^verbatim>\<open>nv_list\<close> (\<open>None\<close> is the null
  pointer); \<open>stringp\<close> is an offset into the shared string arena. \<open>depth\<close> is an
  \<^verbatim>\<open>int8_t\<close> (\<^verbatim>\<open>config.h\<close>): an 8-bit word that \<open>sint\<close> reads as the signed number, so
  that \<^verbatim>\<open>nv->pv->depth + 1\<close>, stored back into the field, wraps from 127 to -128.
\<close>

record nvObj_t =
  pv :: "nat option"
  nx :: "nat option"
  index :: nat
  depth :: "8 word"
  valuetype :: valueType
  precision :: int
  "value" :: float
  token :: string
  group :: string
  stringp :: "nat option"

record nvStr_t =
  wp :: nat
  string :: "char list"

text \<open>
  What the header files and the application leave to this file: the table and the
  index predicates of \<^verbatim>\<open>config_app.c\<close>, and the constants of \<^verbatim>\<open>config.h\<close>,
  \<^verbatim>\<open>util.h\<close> and \<^verbatim>\<open>canonical_machine.h\<close>. None of them is part of the sources, so they
  are parameters.
\<close>

record config =
  cfgArray :: "cfgItem_t list"
  nv_index_is_single :: "nat \<Rightarrow> bool"
  nv_index_lt_groups :: "nat \<Rightarrow> bool"
  NO_MATCH :: nat
  MM_PER_INCH :: float
  fp_FALSE :: "float \<Rightarrow> bool"
  NV_SHARED_STRING_LEN :: nat
  NV_BODY_LEN :: nat
  DISABLE_PERSISTENCE :: bool
  fw_build :: float

text \<open>
  The mutable state: the node list, the string arena, the typed heaps behind
  \<^verbatim>\<open>target\<close>, the units mode of the canonical machine, the records of the nonvolatile
  memory, and the nodes handed to a bound \<^verbatim>\<open>print\<close> function so far.
\<close>

record state =
  nv_list :: "nvObj_t list"
  nvStr :: nvStr_t
  tgt_u8 :: "nat \<Rightarrow> 8 word"
  tgt_u32 :: "nat \<Rightarrow> 32 word"
  tgt_flt :: "nat \<Rightarrow> float"
  units_mode :: units
  nvm :: "nat \<Rightarrow> float"
  printed :: "nvObj_t list"

text \<open>
  Modelled from the spec: \<^verbatim>\<open>nv_index_max()\<close> is defined in \<^verbatim>\<open>config_app.c\<close>; the
  spec calls it the descriptor count.
\<close>

definition nv_index_max :: "config \<Rightarrow> nat" where
  "nv_index_max cfg = length (cfgArray cfg)"

text \<open>\<^verbatim>\<open>cfgArray[i]\<close>: a read outside the table is not defined.\<close>

definition table_item :: "config \<Rightarrow> nat \<Rightarrow> cfgItem_t option" where
  "table_item cfg i = (if i < length (cfgArray cfg) then Some (cfgArray cfg ! i) else None)"

subsection \<open>Generic accessors\<close>

type_synonym cmd_result = "(stat_t \<times> nvObj_t \<times> state) option"

definition get_nul :: "config \<Rightarrow> nvObj_t \<Rightarrow> state \<Rightarrow> cmd_result" where
  "get_nul cfg nv s = Some (STAT_NOOP, nv\<lparr>valuetype := TYPE_NULL\<rparr>, s)"

definition get_ui8 :: "config \<Rightarrow> nvObj_t \<Rightarrow> state \<Rightarrow> cmd_result" where
  "get_ui8 cfg nv s =
     (case table_item cfg (index nv) of
        None \<Rightarrow> None
      | Some d \<Rightarrow>
          Some (STAT_OK,
                nv\<lparr>value := float_of_int (uint (tgt_u8 s (target d))), valuetype := TYPE_INTEGER\<rparr>,
                s))"

definition get_int :: "config \<Rightarrow> nvObj_t \<Rightarrow> state \<Rightarrow> cmd_result" where
  "get_int cfg nv s =
     (case table_item cfg (index nv) of
        None \<Rightarrow> None
      | Some d \<Rightarrow>
          Some (STAT_OK,
                nv\<lparr>value := float_of_int (uint (tgt_u32 s (target d))), valuetype := TYPE_INTEGER\<rparr>,
                s))"

definition get_flt :: "config \<Rightarrow> nvObj_t \<Rightarrow> state \<Rightarrow> cmd_result" where
  "get_flt cfg nv s =
     (case table_item cfg (index nv) of
        None \<Rightarrow> None
      | Some d \<Rightarrow>
          Some (STAT_OK,
                nv\<lparr>value := tgt_flt s (target d),
                   precision := cfgItem_t.precision d,
                   valuetype := TYPE_FLOAT\<rparr>,
                s))"

definition set_nul :: "config \<Rightarrow> nvObj_t \<Rightarrow> state \<Rightarrow> cmd_result" where
  "set_nul cfg nv s = Some (STAT_NOOP, nv, s)"

definition set_ui8 :: "config \<Rightarrow> nvObj_t \<Rightarrow> state \<Rightarrow> cmd_result" where
  "set_ui8 cfg nv s =
     (case table_item cfg (index nv) of
        None \<Rightarrow> None
      | Some d \<Rightarrow>
          (case float_to_uint 8 (value nv) of
             None \<Rightarrow> None
           | Some n \<Rightarrow>
               Some (STAT_OK,
                     nv\<lparr>valuetype := TYPE_INTEGER\<rparr>,
                     s\<lparr>tgt_u8 := (tgt_u8 s)(target d := word_of_int n)\<rparr>)))"

definition set_01 :: "config \<Rightarrow> nvObj_t \<Rightarrow> state \<Rightarrow> cmd_result" where
  "set_01 cfg nv s =
     (if float_gt (value nv) (Finite 1) then Some (STAT_INPUT_VALUE_UNSUPPORTED, nv, s)
      else set_ui8 cfg nv s)"

definition set_012 :: "config \<Rightarrow> nvObj_t \<Rightarrow> state \<Rightarrow> cmd_result" where
  "set_012 cfg nv s =
     (if float_gt (value nv) (Finite 2) then Some (STAT_INPUT_VALUE_UNSUPPORTED, nv, s)
      else set_ui8 cfg nv s)"

definition set_0123 :: "config \<Rightarrow> nvObj_t \<Rightarrow> state \<Rightarrow> cmd_result" where
  "set_0123 cfg nv s =
     (if float_gt (value nv) (Finite 3) then Some (STAT_INPUT_VALUE_UNSUPPORTED, nv, s)
      else set_ui8 cfg nv s)"

definition set_int :: "config \<Rightarrow> nvObj_t \<Rightarrow> state \<Rightarrow> cmd_result" where
  "set_int cfg nv s =
     (case table_item cfg (index nv) of
        None \<Rightarrow> None
      | Some d \<Rightarrow>
          (case float_to_uint 32 (value nv) of
             None \<Rightarrow> None
           | Some n \<Rightarrow>
               Some (STAT_OK,
                     nv\<lparr>valuetype := TYPE_INTEGER\<rparr>,
                     s\<lparr>tgt_u32 := (tgt_u32 s)(target d := word_of_int n)\<rparr>)))"

definition set_flt :: "config \<Rightarrow> nvObj_t \<Rightarrow> state \<Rightarrow> cmd_result" where
  "set_flt cfg nv s =
     (case table_item cfg (index nv) of
        None \<Rightarrow> None
      | Some d \<Rightarrow>
          Some (STAT_OK,
                nv\<lparr>precision := cfgItem_t.precision d, valuetype := TYPE_FLOAT\<rparr>,
                s\<lparr>tgt_flt := (tgt_flt s)(target d := value nv)\<rparr>))"

definition get_flu :: "config \<Rightarrow> nvObj_t \<Rightarrow> state \<Rightarrow> cmd_result" where
  "get_flu cfg nv s = get_flt cfg nv s"

definition set_flu :: "config \<Rightarrow> nvObj_t \<Rightarrow> state \<Rightarrow> cmd_result" where
  "set_flu cfg nv s =
     (let nv1 = (if units_mode s = INCHES
                 then nv\<lparr>value := float_mul (value nv) (MM_PER_INCH cfg)\<rparr>
                 else nv)
      in case table_item cfg (index nv1) of
           None \<Rightarrow> None
         | Some d \<Rightarrow>
             Some (STAT_OK,
                   nv1\<lparr>precision := cfgItem_t.precision d, valuetype := TYPE_FLOAT\<rparr>,
                   s\<lparr>tgt_flt := (tgt_flt s)(target d := value nv1)\<rparr>))"

text \<open>The call through a function pointer of the table.\<close>

fun call :: "fptrCmd \<Rightarrow> config \<Rightarrow> nvObj_t \<Rightarrow> state \<Rightarrow> cmd_result" where
  "call Get_nul = get_nul"
| "call Get_ui8 = get_ui8"
| "call Get_int = get_int"
| "call Get_flt = get_flt"
| "call Get_flu = get_flu"
| "call Set_nul = set_nul"
| "call Set_ui8 = set_ui8"
| "call Set_01 = set_01"
| "call Set_012 = set_012"
| "call Set_0123 = set_0123"
| "call Set_int = set_int"
| "call Set_flt = set_flt"
| "call Set_flu = set_flu"

subsection \<open>Gatekeepers\<close>

definition nv_set :: "config \<Rightarrow> nvObj_t \<Rightarrow> state \<Rightarrow> cmd_result" where
  "nv_set cfg nv s =
     (if nv_index_max cfg \<le> index nv then Some (STAT_INTERNAL_RANGE_ERROR, nv, s)
      else call (set_f (cfgArray cfg ! index nv)) cfg nv s)"

definition nv_get :: "config \<Rightarrow> nvObj_t \<Rightarrow> state \<Rightarrow> cmd_result" where
  "nv_get cfg nv s =
     (if nv_index_max cfg \<le> index nv then Some (STAT_INTERNAL_RANGE_ERROR, nv, s)
      else call (get_f (cfgArray cfg ! index nv)) cfg nv s)"

text \<open>
  The bound \<^verbatim>\<open>print\<close> functions are the application's text formatters; the model records
  that the formatter of the node's descriptor was invoked with the node.
\<close>

definition nv_print :: "config \<Rightarrow> nvObj_t \<Rightarrow> state \<Rightarrow> state" where
  "nv_print cfg nv s =
     (if nv_index_max cfg \<le> index nv then s else s\<lparr>printed := printed s @ [nv]\<rparr>)"

text \<open>
  Modelled from the spec: \<^verbatim>\<open>read_persistent_value\<close> and \<^verbatim>\<open>write_persistent_value\<close>
  are defined in \<^verbatim>\<open>persistence.c\<close>. The spec gives them as \<open>read_record(index) -> value\<close>
  and \<open>write_record(index, value)\<close>, synchronous and reliable, each record holding one
  value at the position of the descriptor index.
\<close>

definition read_persistent_value :: "nvObj_t \<Rightarrow> state \<Rightarrow> nvObj_t" where
  "read_persistent_value nv s = nv\<lparr>value := nvm s (index nv)\<rparr>"

definition write_persistent_value :: "nvObj_t \<Rightarrow> state \<Rightarrow> state" where
  "write_persistent_value nv s = s\<lparr>nvm := (nvm s)(index nv := value nv)\<rparr>"

definition nv_persist :: "config \<Rightarrow> nvObj_t \<Rightarrow> state \<Rightarrow> state option" where
  "nv_persist cfg nv s =
     (if DISABLE_PERSISTENCE cfg then Some s
      else if \<not> nv_index_lt_groups cfg (index nv) then Some s
      else case table_item cfg (index nv) of
             None \<Rightarrow> None
           | Some d \<Rightarrow>
               if F_PERSIST \<in> flags d then Some (write_persistent_value nv s) else Some s)"

subsection \<open>Strings\<close>

text \<open>
  A C string is the list of its characters before the terminator; it never contains
  the terminator itself. \<open>char_at s k\<close> is \<^verbatim>\<open>s[k]\<close> for a string in a buffer whose
  bytes behind the terminator are zero (the table's token arrays are zero-filled by
  their initialisers, and \<^verbatim>\<open>strncpy\<close> pads the resolver's local buffer).

  Modelled from the spec: \<^verbatim>\<open>TOKEN_LEN\<close> and \<^verbatim>\<open>GROUP_LEN\<close> are defined in \<^verbatim>\<open>config.h\<close>;
  the spec gives a token at most 5 and a group at most 3 characters.
\<close>

definition NUL :: char where
  "NUL = CHR 0x00"

definition TOKEN_LEN :: nat where
  "TOKEN_LEN = 5"

definition GROUP_LEN :: nat where
  "GROUP_LEN = 3"

definition char_at :: "string \<Rightarrow> nat \<Rightarrow> char" where
  "char_at s k = (if k < length s then s ! k else NUL)"

subsection \<open>Token resolver\<close>

text \<open>
  \<open>token_match t str\<close> is the body of the loop of \<^verbatim>\<open>nv_get_index\<close> for one table
  entry with token \<open>t\<close>: \<open>True\<close> where the C code returns the index, \<open>False\<close> where
  it continues with the next entry.
\<close>

definition token_match :: "string \<Rightarrow> string \<Rightarrow> bool" where
  "token_match t str =
     (if char_at t 0 \<noteq> char_at str 0 then False
      else if char_at t 1 = NUL \<and> char_at str 1 = NUL then True
      else if char_at t 1 \<noteq> char_at str 1 then False
      else if char_at t 2 = NUL \<and> char_at str 2 = NUL then True
      else if char_at t 2 \<noteq> char_at str 2 then False
      else if char_at t 3 = NUL \<and> char_at str 3 = NUL then True
      else if char_at t 3 \<noteq> char_at str 3 then False
      else if char_at t 4 = NUL \<and> char_at str 4 = NUL then True
      else if char_at t 4 \<noteq> char_at str 4 then False
      else True)"

function nv_get_index_scan :: "config \<Rightarrow> string \<Rightarrow> nat \<Rightarrow> nat" where
  "nv_get_index_scan cfg str i =
     (if i < nv_index_max cfg
      then if token_match (cfgItem_t.token (cfgArray cfg ! i)) str then i
           else nv_get_index_scan cfg str (Suc i)
      else NO_MATCH cfg)"
  by pat_completeness auto
termination
  by (relation "measure (\<lambda>(cfg, str, i). nv_index_max cfg - i)") auto

text \<open>
  \<^verbatim>\<open>str\<close> has \<^verbatim>\<open>TOKEN_LEN + GROUP_LEN + 1\<close> bytes. \<^verbatim>\<open>strncpy(str, group, GROUP_LEN+1)\<close>
  leaves \<^verbatim>\<open>str\<close> without a terminator when the group has more than \<^verbatim>\<open>GROUP_LEN\<close>
  characters, and \<^verbatim>\<open>strncat(str, token, TOKEN_LEN+1)\<close> writes behind the array when
  group and token together need more than its size: the result is \<open>None\<close> there.
\<close>

definition nv_get_index :: "config \<Rightarrow> string \<Rightarrow> string \<Rightarrow> nat option" where
  "nv_get_index cfg grp tok =
     (if length grp \<le> GROUP_LEN
         \<and> length grp + min (length tok) (TOKEN_LEN + 1) \<le> TOKEN_LEN + GROUP_LEN
      then Some (nv_get_index_scan cfg (grp @ take (TOKEN_LEN + 1) tok) 0)
      else None)"

subsection \<open>Shared string arena\<close>

text \<open>
  \<^verbatim>\<open>strcpy(&buf[off], src)\<close> writes the characters of \<open>src\<close> and the terminator. The
  arena \<^verbatim>\<open>nvStr.string\<close> is the list of its bytes.
\<close>

definition strcpy_at :: "char list \<Rightarrow> nat \<Rightarrow> string \<Rightarrow> char list option" where
  "strcpy_at buf off src =
     (if off + length src + 1 \<le> length buf
      then Some (take off buf @ src @ [NUL] @ drop (off + length src + 1) buf)
      else None)"

definition nv_copy_string :: "config \<Rightarrow> nvObj_t \<Rightarrow> string \<Rightarrow> state \<Rightarrow> cmd_result" where
  "nv_copy_string cfg nv src s =
     (if NV_SHARED_STRING_LEN cfg < wp (nvStr s) + length src then Some (STAT_BUFFER_FULL, nv, s)
      else case strcpy_at (string (nvStr s)) (wp (nvStr s)) src of
             None \<Rightarrow> None
           | Some buf \<Rightarrow>
               Some (STAT_OK,
                     nv\<lparr>stringp := Some (wp (nvStr s))\<rparr>,
                     s\<lparr>nvStr := \<lparr>wp = wp (nvStr s) + length src + 1, string = buf\<rparr>\<rparr>))"

subsection \<open>Node list\<close>

text \<open>
  Modelled from the spec: \<^verbatim>\<open>nv_body\<close> is a macro of \<^verbatim>\<open>config.h\<close>; the pool is a header
  node followed by the body, so the body starts at position 1.
\<close>

definition nv_body :: nat where
  "nv_body = 1"

text \<open>
  The scan for the first empty node of the body that all \<^verbatim>\<open>nv_add_...\<close> functions
  start with, \<open>n\<close> iterations left: \<open>Some (Some p)\<close> is the empty node found,
  \<open>Some None\<close> the return of a null pointer.
\<close>

fun nv_first_empty :: "nat \<Rightarrow> nvObj_t list \<Rightarrow> nat \<Rightarrow> nat option option" where
  "nv_first_empty 0 lst p = Some None"
| "nv_first_empty (Suc n) lst p =
     (if length lst \<le> p then None
      else if valuetype (lst ! p) \<noteq> TYPE_EMPTY
           then (case nx (lst ! p) of None \<Rightarrow> Some None | Some q \<Rightarrow> nv_first_empty n lst q)
           else Some (Some p))"

text \<open>
  \<^verbatim>\<open>strncpy(nv->token, token, TOKEN_LEN)\<close> copies at most \<^verbatim>\<open>TOKEN_LEN\<close> characters; the
  last byte of the token array is never written by this file and stays zero.
\<close>

definition nv_add_string :: "config \<Rightarrow> string \<Rightarrow> string \<Rightarrow> state \<Rightarrow> (nat option \<times> state) option" where
  "nv_add_string cfg tok str s =
     (case nv_first_empty (NV_BODY_LEN cfg) (nv_list s) nv_body of
        None \<Rightarrow> None
      | Some None \<Rightarrow> Some (None, s)
      | Some (Some p) \<Rightarrow>
          (case nv_copy_string cfg ((nv_list s ! p)\<lparr>token := take TOKEN_LEN tok\<rparr>) str s of
             None \<Rightarrow> None
           | Some (st, nv1, s1) \<Rightarrow>
               if st \<noteq> STAT_OK then Some (None, s1\<lparr>nv_list := (nv_list s1)[p := nv1]\<rparr>)
               else (case nv_get_index cfg [] (token nv1) of
                       None \<Rightarrow> None
                     | Some i \<Rightarrow>
                         Some (Some p,
                               s1\<lparr>nv_list := (nv_list s1)[p := nv1\<lparr>index := i, valuetype := TYPE_STRING\<rparr>]\<rparr>))))"

definition nv_reset_nvObj_list :: "state \<Rightarrow> (nat \<times> state) option" where
  "nv_reset_nvObj_list s =
     (let n = length (nv_list s);
          cleared = map (\<lambda>(i, nv). nv\<lparr>pv := (if i = 0 then None else Some (i - 1)),
                                      nx := (if Suc i = n then None else Some (Suc i)),
                                      index := 0, depth := 1, precision := 0,
                                      valuetype := TYPE_EMPTY, token := []\<rparr>)
                        (zip [0..<n] (nv_list s))
      in if n = 0 then None
         else Some (nv_body,
                    s\<lparr>nvStr := (nvStr s)\<lparr>wp := 0\<rparr>,
                      nv_list := cleared[0 := (cleared ! 0)\<lparr>pv := None, depth := 0,
                                        valuetype := TYPE_PARENT, token := ''r''\<rparr>]\<rparr>))"

text \<open>
  \<^verbatim>\<open>nv_reset_nvObj\<close> clears the node at position \<open>p\<close> and sets its depth from the
  node \<^verbatim>\<open>pv\<close> points to, which is read after the node itself has been cleared.
\<close>

definition nv_reset_nvObj :: "nvObj_t list \<Rightarrow> nat \<Rightarrow> nvObj_t list option" where
  "nv_reset_nvObj lst p =
     (if length lst \<le> p then None
      else let nv = (lst ! p)\<lparr>valuetype := TYPE_EMPTY, index := 0, value := Finite 0,
                                precision := 0, token := [], group := [], stringp := None\<rparr>;
               lst1 = lst[p := nv]
           in case pv nv of
                None \<Rightarrow> Some (lst1[p := nv\<lparr>depth := 0\<rparr>])
              | Some q \<Rightarrow>
                  if length lst1 \<le> q then None
                  else if valuetype (lst1 ! q) = TYPE_PARENT
                       then Some (lst1[p := nv\<lparr>depth := depth (lst1 ! q) + 1\<rparr>])
                       else Some (lst1[p := nv\<lparr>depth := depth (lst1 ! q)\<rparr>]))"

text \<open>
  The tail of \<^verbatim>\<open>nv_get_nvObj\<close> that removes the group prefix:
  \<^verbatim>\<open>strcpy(nv->token, &nv->token[strlen(nv->group)])\<close> reads the token from the length
  of the group on. Where the group is longer than the token this reads bytes behind
  the token's terminator, which the model does not keep.
\<close>

definition strip_group :: "cfgItem_t \<Rightarrow> nvObj_t \<Rightarrow> nvObj_t option" where
  "strip_group d nv =
     (if group nv \<noteq> []
      then if F_NOSTRIP \<in> flags d then Some (nv\<lparr>group := []\<rparr>)
           else if length (group nv) \<le> length (token nv)
                then Some (nv\<lparr>token := drop (length (group nv)) (token nv)\<rparr>)
                else None
      else Some nv)"

definition nv_get_nvObj :: "config \<Rightarrow> nat \<Rightarrow> state \<Rightarrow> state option" where
  "nv_get_nvObj cfg p s =
     (if length (nv_list s) \<le> p then None
      else if nv_index_max cfg \<le> index (nv_list s ! p) then Some s
      else case nv_reset_nvObj (nv_list s) p of
             None \<Rightarrow> None
           | Some lst1 \<Rightarrow>
               (let d = cfgArray cfg ! index (nv_list s ! p);
                    nv1 = (lst1 ! p)\<lparr>index := index (nv_list s ! p),
                                    token := cfgItem_t.token d,
                                    group := cfgItem_t.group d\<rparr>
                in case strip_group d nv1 of
                     None \<Rightarrow> None
                   | Some nv2 \<Rightarrow>
                       (case call (get_f d) cfg nv2 (s\<lparr>nv_list := lst1[p := nv2]\<rparr>) of
                          None \<Rightarrow> None
                        | Some (st, nv3, s3) \<Rightarrow> Some (s3\<lparr>nv_list := (nv_list s3)[p := nv3]\<rparr>))))"

subsection \<open>Group expansion\<close>

text \<open>
  The loop of \<^verbatim>\<open>get_grp\<close>: \<open>i\<close> is the table index, \<open>p\<close> the position of the node
  written last (\<^verbatim>\<open>++nv\<close> moves to the next element of the array, whether or not
  there is one), \<open>parent_group\<close> the token of the parent node.
\<close>

function get_grp_loop :: "config \<Rightarrow> string \<Rightarrow> nat \<Rightarrow> nat \<Rightarrow> state \<Rightarrow> state option" where
  "get_grp_loop cfg parent_group i p s =
     (if \<not> nv_index_is_single cfg i then Some s
      else if nv_index_max cfg \<le> i then None
      else if cfgItem_t.group (cfgArray cfg ! i) \<noteq> parent_group
           then get_grp_loop cfg parent_group (Suc i) p s
      else if length (nv_list s) \<le> Suc p then None
      else case nv_get_nvObj cfg (Suc p)
                  (s\<lparr>nv_list := (nv_list s)[Suc p := (nv_list s ! Suc p)\<lparr>index := i\<rparr>]\<rparr>) of
             None \<Rightarrow> None
           | Some s1 \<Rightarrow> get_grp_loop cfg parent_group (Suc i) (Suc p) s1)"
  by pat_completeness auto
termination
  by (relation "measure (\<lambda>(cfg, parent_group, i, p, s). nv_index_max cfg - i)") auto

declare get_grp_loop.simps [simp del]

definition get_grp :: "config \<Rightarrow> nat \<Rightarrow> state \<Rightarrow> (stat_t \<times> state) option" where
  "get_grp cfg p s =
     (if length (nv_list s) \<le> p then None
      else map_option (\<lambda>s1. (STAT_OK, s1))
             (get_grp_loop cfg (token (nv_list s ! p)) 0 p
                (s\<lparr>nv_list := (nv_list s)[p := (nv_list s ! p)\<lparr>valuetype := TYPE_PARENT\<rparr>]\<rparr>)))"

subsection \<open>Boot-time defaults sequencer\<close>

text \<open>
  Modelled from the spec: \<^verbatim>\<open>cm_set_units_mode\<close> is defined in
  \<^verbatim>\<open>canonical_machine.c\<close>; the spec gives it as the unit-mode set of the units
  collaborator. The messages (\<^verbatim>\<open>rpt_print_...\<close>, \<^verbatim>\<open>help_defa\<close>), the status report
  (\<^verbatim>\<open>sr_init_status_report\<close>) and the magic numbers do not touch the state of this
  model and are left out.
\<close>

definition cm_set_units_mode :: "units \<Rightarrow> state \<Rightarrow> state" where
  "cm_set_units_mode u s = s\<lparr>units_mode := u\<rparr>"

text \<open>
  The body of the loop of \<^verbatim>\<open>set_defaults\<close> for a descriptor \<open>d\<close> with
  \<^verbatim>\<open>F_INITIALIZE\<close>: the default and the token go into the node, then \<^verbatim>\<open>nv_set\<close> and
  \<^verbatim>\<open>nv_persist\<close>; the status of \<^verbatim>\<open>nv_set\<close> is not looked at.
\<close>

definition set_defaults_body :: "config \<Rightarrow> cfgItem_t \<Rightarrow> nvObj_t \<Rightarrow> state \<Rightarrow> (nvObj_t \<times> state) option" where
  "set_defaults_body cfg d nv s =
     (case nv_set cfg (nv\<lparr>value := def_value d, token := take TOKEN_LEN (cfgItem_t.token d)\<rparr>) s of
        None \<Rightarrow> None
      | Some (st, nv1, s1) \<Rightarrow> map_option (Pair nv1) (nv_persist cfg nv1 s1))"

text \<open>
  \<^verbatim>\<open>for (nv->index=0; nv_index_is_single(nv->index); nv->index++)\<close>: the counter is
  the index field of the node, which the body receives.
\<close>

function set_defaults_loop :: "config \<Rightarrow> nvObj_t \<Rightarrow> state \<Rightarrow> (nvObj_t \<times> state) option" where
  "set_defaults_loop cfg nv s =
     (if \<not> nv_index_is_single cfg (index nv) then Some (nv, s)
      else case table_item cfg (index nv) of
             None \<Rightarrow> None
           | Some d \<Rightarrow>
               if F_INITIALIZE \<in> flags d
               then (case set_defaults_body cfg d nv s of
                       None \<Rightarrow> None
                     | Some (nv1, s1) \<Rightarrow> set_defaults_loop cfg (nv1\<lparr>index := index nv1 + 1\<rparr>) s1)
               else set_defaults_loop cfg (nv\<lparr>index := index nv + 1\<rparr>) s)"
  by pat_completeness auto
termination
proof (relation "measure (\<lambda>(cfg, nv, s). nv_index_max cfg - index nv)")
  show "wf (measure (\<lambda>(cfg, nv, s). nv_index_max cfg - index nv))" by simp
next
  fix cfg nv s d x2 nv1 s1
  assume t: "table_item cfg (index nv) = Some d"
    and b: "set_defaults_body cfg d nv s = Some x2" and x: "(nv1, s1) = x2"
  have keep: "index n1 = index n0" if "call f cfg n0 t0 = Some (st, n1, t1)" for f n0 t0 st n1 t1
    using that
    by (cases f)
      (auto simp: get_nul_def get_ui8_def get_int_def get_flt_def get_flu_def set_nul_def
        set_ui8_def set_01_def set_012_def set_0123_def set_int_def set_flt_def set_flu_def Let_def
        split: option.splits if_splits)
  from b x have "index nv1 = index nv"
    by (auto simp: set_defaults_body_def nv_set_def dest: keep split: option.splits if_splits)
  moreover from t have "index nv < nv_index_max cfg"
    by (auto simp: table_item_def nv_index_max_def split: if_splits)
  ultimately show "((cfg, nv1\<lparr>index := index nv1 + 1\<rparr>, s1), cfg, nv, s)
         \<in> measure (\<lambda>(cfg, nv, s). nv_index_max cfg - index nv)" by simp
next
  fix cfg nv s d
  assume "table_item cfg (index nv) = Some d"
  then have "index nv < nv_index_max cfg"
    by (auto simp: table_item_def nv_index_max_def split: if_splits)
  then show "((cfg, nv\<lparr>index := index nv + 1\<rparr>, s), cfg, nv, s)
         \<in> measure (\<lambda>(cfg, nv, s). nv_index_max cfg - index nv)" by simp
qed

declare set_defaults_loop.simps [simp del]

definition set_defaults :: "config \<Rightarrow> nvObj_t \<Rightarrow> state \<Rightarrow> cmd_result" where
  "set_defaults cfg nv s =
     (if fp_FALSE cfg (value nv) then Some (STAT_OK, nv, s)
      else map_option (\<lambda>(nv1, s1). (STAT_OK, nv1, s1))
             (set_defaults_loop cfg (nv\<lparr>index := 0\<rparr>) (cm_set_units_mode MILLIMETERS s)))"

text \<open>
  The body of the loop of \<^verbatim>\<open>config_init\<close> when the nonvolatile memory is in
  revision: the record of the descriptor is read into the node and set.
\<close>

definition config_init_body :: "config \<Rightarrow> cfgItem_t \<Rightarrow> nvObj_t \<Rightarrow> state \<Rightarrow> (nvObj_t \<times> state) option" where
  "config_init_body cfg d nv s =
     (case nv_set cfg (read_persistent_value (nv\<lparr>token := take TOKEN_LEN (cfgItem_t.token d)\<rparr>) s) s of
        None \<Rightarrow> None
      | Some (st, nv1, s1) \<Rightarrow> Some (nv1, s1))"

function config_init_loop :: "config \<Rightarrow> nvObj_t \<Rightarrow> state \<Rightarrow> (nvObj_t \<times> state) option" where
  "config_init_loop cfg nv s =
     (if \<not> nv_index_is_single cfg (index nv) then Some (nv, s)
      else case table_item cfg (index nv) of
             None \<Rightarrow> None
           | Some d \<Rightarrow>
               if F_INITIALIZE \<in> flags d
               then (case config_init_body cfg d nv s of
                       None \<Rightarrow> None
                     | Some (nv1, s1) \<Rightarrow> config_init_loop cfg (nv1\<lparr>index := index nv1 + 1\<rparr>) s1)
               else config_init_loop cfg (nv\<lparr>index := index nv + 1\<rparr>) s)"
  by pat_completeness auto
termination
proof (relation "measure (\<lambda>(cfg, nv, s). nv_index_max cfg - index nv)")
  show "wf (measure (\<lambda>(cfg, nv, s). nv_index_max cfg - index nv))" by simp
next
  fix cfg nv s d x2 nv1 s1
  assume t: "table_item cfg (index nv) = Some d"
    and b: "config_init_body cfg d nv s = Some x2" and x: "(nv1, s1) = x2"
  have keep: "index n1 = index n0" if "call f cfg n0 t0 = Some (st, n1, t1)" for f n0 t0 st n1 t1
    using that
    by (cases f)
      (auto simp: get_nul_def get_ui8_def get_int_def get_flt_def get_flu_def set_nul_def
        set_ui8_def set_01_def set_012_def set_0123_def set_int_def set_flt_def set_flu_def Let_def
        split: option.splits if_splits)
  from b x have "index nv1 = index nv"
    by (auto simp: config_init_body_def nv_set_def read_persistent_value_def dest: keep split: option.splits if_splits)
  moreover from t have "index nv < nv_index_max cfg"
    by (auto simp: table_item_def nv_index_max_def split: if_splits)
  ultimately show "((cfg, nv1\<lparr>index := index nv1 + 1\<rparr>, s1), cfg, nv, s)
         \<in> measure (\<lambda>(cfg, nv, s). nv_index_max cfg - index nv)" by simp
next
  fix cfg nv s d
  assume "table_item cfg (index nv) = Some d"
  then have "index nv < nv_index_max cfg"
    by (auto simp: table_item_def nv_index_max_def split: if_splits)
  then show "((cfg, nv\<lparr>index := index nv + 1\<rparr>, s), cfg, nv, s)
         \<in> measure (\<lambda>(cfg, nv, s). nv_index_max cfg - index nv)" by simp
qed

declare config_init_loop.simps [simp del]

text \<open>
  \<^verbatim>\<open>config_init\<close> works on the node that \<^verbatim>\<open>nv_reset_nvObj_list\<close> returns, the first
  node of the body.
\<close>

definition config_init :: "config \<Rightarrow> state \<Rightarrow> state option" where
  "config_init cfg s =
     (case nv_reset_nvObj_list s of
        None \<Rightarrow> None
      | Some (p, s1) \<Rightarrow>
          if length (nv_list s1) \<le> p then None
          else (let s2 = cm_set_units_mode MILLIMETERS s1;
                    nv = read_persistent_value ((nv_list s2 ! p)\<lparr>index := 0\<rparr>) s2
                in map_option (\<lambda>(nv1, s3). s3\<lparr>nv_list := (nv_list s3)[p := nv1]\<rparr>)
                     (if float_ne (value nv) (fw_build cfg)
                      then map_option snd (set_defaults cfg (nv\<lparr>value := Finite 1\<rparr>) s2)
                      else config_init_loop cfg (nv\<lparr>index := 0\<rparr>) s2)))"

subsection \<open>Vocabulary of the properties\<close>

text \<open>
  \<open>round_trip cfg nv other s\<close>: \<^verbatim>\<open>nv_set\<close> on the node \<open>nv\<close> succeeds, and
  \<^verbatim>\<open>nv_get\<close> for the same descriptor on any node \<open>other\<close>, whatever value, kind and
  strings it carries, then succeeds without changing the state and delivers the value
  that \<open>nv\<close> carried. The value therefore comes from what the setter stored, not from
  the node that was set.
\<close>

definition round_trip :: "config \<Rightarrow> nvObj_t \<Rightarrow> nvObj_t \<Rightarrow> state \<Rightarrow> bool" where
  "round_trip cfg nv other s =
     (case nv_set cfg nv s of
        Some (STAT_OK, nv1, s1) \<Rightarrow>
          (case nv_get cfg (other\<lparr>index := index nv\<rparr>) s1 of
             Some (STAT_OK, nv2, s2) \<Rightarrow> s2 = s1 \<and> value nv2 = value nv
           | _ \<Rightarrow> False)
      | _ \<Rightarrow> False)"

text \<open>
  \<open>prefix_match t q\<close>: both strings end together within the first five characters,
  or their five leading characters are equal.
\<close>

definition prefix_match :: "string \<Rightarrow> string \<Rightarrow> bool" where
  "prefix_match t q =
     (length t < 5 \<and> t = q \<or> 5 \<le> length t \<and> 5 \<le> length q \<and> take 5 t = take 5 q)"

text \<open>
  \<open>is_getter f\<close>: \<open>f\<close> is one of the generic getters. What a read of descriptor
  \<open>d\<close> shows, by the kind of its getter: \<open>read_kind\<close> the value kind, \<open>read_value\<close>
  the content of the backing storage as a float (zero where nothing is read),
  \<open>read_precision\<close> the display precision (of the descriptor for a float, zero
  otherwise).
\<close>

definition is_getter :: "fptrCmd \<Rightarrow> bool" where
  "is_getter f = (f \<in> {Get_nul, Get_ui8, Get_int, Get_flt, Get_flu})"

fun read_kind :: "fptrCmd \<Rightarrow> valueType" where
  "read_kind Get_nul = TYPE_NULL"
| "read_kind Get_ui8 = TYPE_INTEGER"
| "read_kind Get_int = TYPE_INTEGER"
| "read_kind Get_flt = TYPE_FLOAT"
| "read_kind Get_flu = TYPE_FLOAT"
| "read_kind _ = TYPE_EMPTY"

fun read_value :: "fptrCmd \<Rightarrow> cfgItem_t \<Rightarrow> state \<Rightarrow> float" where
  "read_value Get_ui8 d s = float_of_int (uint (tgt_u8 s (target d)))"
| "read_value Get_int d s = float_of_int (uint (tgt_u32 s (target d)))"
| "read_value Get_flt d s = tgt_flt s (target d)"
| "read_value Get_flu d s = tgt_flt s (target d)"
| "read_value _ d s = Finite 0"

fun read_precision :: "fptrCmd \<Rightarrow> cfgItem_t \<Rightarrow> int" where
  "read_precision Get_flt d = cfgItem_t.precision d"
| "read_precision Get_flu d = cfgItem_t.precision d"
| "read_precision _ d = 0"

text \<open>
  \<open>group_members cfg n g\<close>: the indexes below \<open>n\<close>, in table order, of the
  descriptors whose group field is \<open>g\<close>.

  \<open>child_node cfg s dep i old\<close>: the child that group expansion makes of descriptor
  \<open>i\<close> at depth \<open>dep\<close> in the slot that held \<open>old\<close>. It keeps the links of the
  slot and carries the index, the token without the group prefix (the whole token and
  a blank group when the descriptor has \<^verbatim>\<open>F_NOSTRIP\<close>), no string, and the kind,
  value and precision that a read of the descriptor shows in state \<open>s\<close>.
  \<open>child_depth lst p\<close> is the depth \<^verbatim>\<open>nv_reset_nvObj\<close> gives a node whose
  predecessor is at \<open>p\<close>.
\<close>

definition group_members :: "config \<Rightarrow> nat \<Rightarrow> string \<Rightarrow> nat list" where
  "group_members cfg n g = filter (\<lambda>j. cfgItem_t.group (cfgArray cfg ! j) = g) [0..<n]"

definition child_node :: "config \<Rightarrow> state \<Rightarrow> 8 word \<Rightarrow> nat \<Rightarrow> nvObj_t \<Rightarrow> nvObj_t" where
  "child_node cfg s dep i old =
     (let d = cfgArray cfg ! i
      in old\<lparr>index := i, depth := dep, stringp := None,
              token := (if cfgItem_t.group d \<noteq> [] \<and> F_NOSTRIP \<notin> flags d
                        then drop (length (cfgItem_t.group d)) (cfgItem_t.token d)
                        else cfgItem_t.token d),
              group := (if F_NOSTRIP \<in> flags d then [] else cfgItem_t.group d),
              valuetype := read_kind (get_f d),
              value := read_value (get_f d) d s,
              precision := read_precision (get_f d) d\<rparr>)"

definition child_depth :: "nvObj_t list \<Rightarrow> nat \<Rightarrow> 8 word" where
  "child_depth lst p = (if valuetype (lst ! p) = TYPE_PARENT then depth (lst ! p) + 1 else depth (lst ! p))"

text \<open>
  The storage behind a descriptor is a cell of one of the three heaps. \<open>is_setter f\<close>:
  \<open>f\<close> is one of the generic setters. \<open>rejects f v\<close>: the range-restricted setter
  \<open>f\<close> refuses \<open>v\<close>. \<open>cell_of d v\<close>: the cell that the setter of \<open>d\<close> writes when
  it is given \<open>v\<close>, if any. \<open>cell_holds s c v\<close>: the cell \<open>c\<close> holds \<open>v\<close>, converted
  to the type of the cell. \<open>set_defined d v\<close>: the conversion of \<open>v\<close> to the type of
  the cell is defined.
\<close>

datatype cell = U8 nat | U32 nat | FLT nat

definition is_setter :: "fptrCmd \<Rightarrow> bool" where
  "is_setter f = (f \<in> {Set_nul, Set_ui8, Set_01, Set_012, Set_0123, Set_int, Set_flt, Set_flu})"

fun rejects :: "fptrCmd \<Rightarrow> float \<Rightarrow> bool" where
  "rejects Set_01 v = float_gt v (Finite 1)"
| "rejects Set_012 v = float_gt v (Finite 2)"
| "rejects Set_0123 v = float_gt v (Finite 3)"
| "rejects _ v = False"

fun cell_kind :: "fptrCmd \<Rightarrow> nat \<Rightarrow> cell option" where
  "cell_kind Set_ui8 a = Some (U8 a)"
| "cell_kind Set_01 a = Some (U8 a)"
| "cell_kind Set_012 a = Some (U8 a)"
| "cell_kind Set_0123 a = Some (U8 a)"
| "cell_kind Set_int a = Some (U32 a)"
| "cell_kind Set_flt a = Some (FLT a)"
| "cell_kind Set_flu a = Some (FLT a)"
| "cell_kind _ a = None"

definition cell_of :: "cfgItem_t \<Rightarrow> float \<Rightarrow> cell option" where
  "cell_of d v = (if rejects (set_f d) v then None else cell_kind (set_f d) (target d))"

fun cell_holds :: "state \<Rightarrow> cell \<Rightarrow> float \<Rightarrow> bool" where
  "cell_holds s (U8 a) v = (float_to_uint 8 v = Some (uint (tgt_u8 s a)))"
| "cell_holds s (U32 a) v = (float_to_uint 32 v = Some (uint (tgt_u32 s a)))"
| "cell_holds s (FLT a) v = (tgt_flt s a = v)"

definition set_defined :: "cfgItem_t \<Rightarrow> float \<Rightarrow> bool" where
  "set_defined d v =
     (case cell_of d v of
        Some (U8 a) \<Rightarrow> float_to_uint 8 v \<noteq> None
      | Some (U32 a) \<Rightarrow> float_to_uint 32 v \<noteq> None
      | _ \<Rightarrow> True)"

text \<open>
  The boot sequencer. \<open>boot_defaults cfg s\<close>: the version marker in record 0 differs
  from the build, so the defaults are loaded. \<open>boot_value cfg s i\<close>: the value
  that the sequencer sets descriptor \<open>i\<close> to, the default or the record.
  \<open>persisted cfg i\<close>: \<^verbatim>\<open>nv_persist\<close> writes the record of descriptor \<open>i\<close> when the
  defaults are loaded. \<open>final_writer cfg val n i c\<close>: descriptor \<open>i\<close> below \<open>n\<close> has
  \<^verbatim>\<open>F_INITIALIZE\<close>, its setter writes \<open>val i\<close> to the cell \<open>c\<close>, and no later such
  descriptor below \<open>n\<close> writes \<open>c\<close>.

  \<open>init_inv cfg s0 val pers k s\<close> is the invariant of both loops after the
  descriptors below \<open>k\<close>: the units mode is \<^verbatim>\<open>MILLIMETERS\<close>, the records for which
  \<open>pers\<close> holds have the value \<open>val\<close> and the others are as in \<open>s0\<close>, and the cell of
  every descriptor with \<^verbatim>\<open>F_INITIALIZE\<close> holds its \<open>val\<close> unless a later one wrote it.
\<close>

definition boot_defaults :: "config \<Rightarrow> state \<Rightarrow> bool" where
  "boot_defaults cfg s = float_ne (nvm s 0) (fw_build cfg)"

definition boot_value :: "config \<Rightarrow> state \<Rightarrow> nat \<Rightarrow> float" where
  "boot_value cfg s i = (if boot_defaults cfg s then def_value (cfgArray cfg ! i) else nvm s i)"

definition persisted :: "config \<Rightarrow> nat \<Rightarrow> bool" where
  "persisted cfg i =
     (F_INITIALIZE \<in> flags (cfgArray cfg ! i) \<and> F_PERSIST \<in> flags (cfgArray cfg ! i)
      \<and> nv_index_lt_groups cfg i \<and> \<not> DISABLE_PERSISTENCE cfg)"

definition final_writer :: "config \<Rightarrow> (nat \<Rightarrow> float) \<Rightarrow> nat \<Rightarrow> nat \<Rightarrow> cell \<Rightarrow> bool" where
  "final_writer cfg val n i c =
     (i < n \<and> F_INITIALIZE \<in> flags (cfgArray cfg ! i)
      \<and> cell_of (cfgArray cfg ! i) (val i) = Some c
      \<and> (\<forall>j\<in>set [Suc i..<n]. F_INITIALIZE \<in> flags (cfgArray cfg ! j)
            \<longrightarrow> cell_of (cfgArray cfg ! j) (val j) \<noteq> Some c))"

definition init_inv :: "config \<Rightarrow> state \<Rightarrow> (nat \<Rightarrow> float) \<Rightarrow> (nat \<Rightarrow> bool) \<Rightarrow> nat \<Rightarrow> state \<Rightarrow> bool" where
  "init_inv cfg s0 val pers k s =
     (units_mode s = MILLIMETERS
      \<and> (\<forall>i. nvm s i = (if i < k \<and> pers i then val i else nvm s0 i))
      \<and> (\<forall>i<k. F_INITIALIZE \<in> flags (cfgArray cfg ! i) \<longrightarrow>
            (\<forall>c. cell_of (cfgArray cfg ! i) (val i) = Some c
                 \<and> (\<forall>j. i < j \<and> j < k \<and> F_INITIALIZE \<in> flags (cfgArray cfg ! j)
                        \<longrightarrow> cell_of (cfgArray cfg ! j) (val j) \<noteq> Some c)
                 \<longrightarrow> cell_holds s c (val i))))"

subsection \<open>An example configuration\<close>

text \<open>
  A small table in the style of \<^verbatim>\<open>config_app.c\<close>, used to evaluate the model on
  concrete inputs: seven single-valued descriptors followed by one group entry.
  \<^verbatim>\<open>MM_PER_INCH\<close> is 25.4 rounded to single precision.
\<close>

definition demo_table :: "cfgItem_t list" where
  "demo_table =
     [\<lparr>cfgItem_t.group = ''sys'', cfgItem_t.token = ''fb'', flags = {F_INITIALIZE, F_PERSIST, F_NOSTRIP}, cfgItem_t.precision = 2,
        get_f = Get_flt, set_f = Set_nul, target = 0, def_value = Finite 440\<rparr>,
      \<lparr>cfgItem_t.group = ''x'', cfgItem_t.token = ''xvm'', flags = {F_INITIALIZE, F_PERSIST}, cfgItem_t.precision = 0,
        get_f = Get_flu, set_f = Set_flu, target = 1, def_value = Finite 1000\<rparr>,
      \<lparr>cfgItem_t.group = ''x'', cfgItem_t.token = ''xfr'', flags = {F_INITIALIZE, F_PERSIST}, cfgItem_t.precision = 0,
        get_f = Get_flu, set_f = Set_flu, target = 2, def_value = Finite 800\<rparr>,
      \<lparr>cfgItem_t.group = ''y'', cfgItem_t.token = ''yvm'', flags = {F_INITIALIZE, F_PERSIST}, cfgItem_t.precision = 0,
        get_f = Get_flu, set_f = Set_flu, target = 3, def_value = Finite 1000\<rparr>,
      \<lparr>cfgItem_t.group = ''x'', cfgItem_t.token = ''xam'', flags = {F_INITIALIZE, F_PERSIST}, cfgItem_t.precision = 0,
        get_f = Get_ui8, set_f = Set_012, target = 0, def_value = Finite 1\<rparr>,
      \<lparr>cfgItem_t.group = ''sys'', cfgItem_t.token = ''ja'', flags = {F_INITIALIZE, F_NOSTRIP}, cfgItem_t.precision = 0,
        get_f = Get_flu, set_f = Set_flu, target = 4, def_value = Finite 100\<rparr>,
      \<lparr>cfgItem_t.group = ''sys'', cfgItem_t.token = ''ln'', flags = {F_NOSTRIP}, cfgItem_t.precision = 0,
        get_f = Get_int, set_f = Set_int, target = 0, def_value = Finite 0\<rparr>,
      \<lparr>cfgItem_t.group = '''', cfgItem_t.token = ''x'', flags = {}, cfgItem_t.precision = 0,
        get_f = Get_nul, set_f = Set_nul, target = 0, def_value = Finite 0\<rparr>]"

definition demo_cfg :: config where
  "demo_cfg =
     \<lparr>cfgArray = demo_table,
      nv_index_is_single = (\<lambda>i. i < 7),
      nv_index_lt_groups = (\<lambda>i. i \<le> 7),
      NO_MATCH = 65535,
      MM_PER_INCH = Finite (13316915 / 524288),
      fp_FALSE = (\<lambda>v. float_gt (Finite (1 / 100000)) v),
      NV_SHARED_STRING_LEN = 8,
      NV_BODY_LEN = 3,
      DISABLE_PERSISTENCE = False,
      fw_build = Finite 440\<rparr>"

definition demo_nv :: nvObj_t where
  "demo_nv =
     \<lparr>pv = None, nx = None, index = 0, depth = 0, valuetype = TYPE_EMPTY, precision = 0,
      value = Finite 0, token = [], group = [], stringp = None\<rparr>"

definition demo_state :: state where
  "demo_state =
     \<lparr>nv_list = [], nvStr = \<lparr>wp = 0, string = replicate 8 (CHR 0x00)\<rparr>,
      tgt_u8 = (\<lambda>_. 0), tgt_u32 = (\<lambda>_. 0), tgt_flt = (\<lambda>_. Finite 0),
      units_mode = MILLIMETERS, nvm = (\<lambda>_. Finite 0), printed = []\<rparr>"

text \<open>The node list after a reset, five nodes long.\<close>

definition demo_list_state :: state where
  "demo_list_state =
     (case nv_reset_nvObj_list (demo_state\<lparr>nv_list := replicate 5 demo_nv\<rparr>) of
        Some (p, s) \<Rightarrow> s
      | None \<Rightarrow> demo_state)"

text \<open>
  The node list with a request for group \<^verbatim>\<open>x\<close> in the first body node, and storage
  that tells the descriptors apart.
\<close>

definition demo_grp_state :: state where
  "demo_grp_state =
     demo_list_state\<lparr>nv_list := (nv_list demo_list_state)
        [1 := (nv_list demo_list_state ! 1)\<lparr>token := ''x'', index := 7\<rparr>],
        tgt_flt := (\<lambda>a. Finite (of_nat a * 100)), tgt_u8 := (\<lambda>_. 2)\<rparr>"

text \<open>
  The state at a hard reset before the first configuration: five nodes, an empty
  nonvolatile memory (record 0 is not the build number), units mode \<^verbatim>\<open>INCHES\<close>.
\<close>

definition demo_boot_state :: state where
  "demo_boot_state = demo_state\<lparr>nv_list := replicate 5 demo_nv, units_mode := INCHES\<rparr>"

text \<open>
  The state at a hard reset with a nonvolatile memory in revision: record 0 is the
  build number, every other record holds 2.
\<close>

definition demo_loaded_state :: state where
  "demo_loaded_state =
     demo_boot_state\<lparr>nvm := (\<lambda>i. if i = 0 then Finite 440 else Finite 2)\<rparr>"

section \<open>Properties\<close>

lemma table_item_Some: "i < nv_index_max cfg \<Longrightarrow> table_item cfg i = Some (cfgArray cfg ! i)"
  by (simp add: table_item_def nv_index_max_def)

lemma demo_max: "nv_index_max demo_cfg = 8"
  by (simp add: nv_index_max_def demo_cfg_def demo_table_def)

lemma demo_cfg_sel:
  "cfgArray demo_cfg = demo_table"
  "nv_index_is_single demo_cfg = (\<lambda>i. i < 7)"
  "nv_index_lt_groups demo_cfg = (\<lambda>i. i \<le> 7)"
  "NO_MATCH demo_cfg = 65535"
  "MM_PER_INCH demo_cfg = Finite (13316915 / 524288)"
  "NV_SHARED_STRING_LEN demo_cfg = 8"
  "NV_BODY_LEN demo_cfg = 3"
  "DISABLE_PERSISTENCE demo_cfg = False"
  "fw_build demo_cfg = Finite 440"
  by (simp_all add: demo_cfg_def)

lemma demo_item1: "table_item demo_cfg 1 = Some (demo_table ! 1)"
  by (simp add: table_item_def demo_cfg_def demo_table_def)

subsection \<open>Conversions between integers and floats\<close>

lemma pow2_pos: "0 < pow2 e"
  by (simp add: pow2_def)

lemma round_half_even_of_int: "round_half_even (of_int j) = j"
  by (simp add: round_half_even_def)

lemma ilog2_of_int: "0 < n \<Longrightarrow> ilog2 (of_int n) = bitlen n - 1"
  by (simp add: ilog2_def)

lemma round32_exact:
  assumes q: "of_int n = of_int j * pow2 (bitlen n - 1 - 23)" and n: "0 < n" "n < 2 ^ 128"
  shows "round32 (of_int n) = Finite (of_int n)"
proof -
  let ?e = "bitlen n - 1"
  have e: "0 \<le> ?e" using n(1) bitlen_eq_zero_iff [of n] bitlen_nonneg [of n] by linarith
  have a: "\<bar>(of_int n :: rat)\<bar> = of_int n" using n(1) by simp
  have m: "max (ilog2 (of_int n)) (- 126) = ?e"
    using e n(1) by (simp add: ilog2_of_int)
  have d: "(of_int n :: rat) / pow2 (?e - 23) = of_int j"
    using q pow2_pos [of "?e - 23"] by (simp add: field_simps)
  have lt: "\<not> pow2 128 \<le> (of_int n :: rat)"
  proof -
    have "(of_int n :: rat) < of_int (2 ^ 128)" using n(2) by (simp only: of_int_less_iff)
    then show ?thesis by (simp add: pow2_def)
  qed
  have nz: "(of_int n :: rat) \<noteq> 0" "(0::rat) < of_int n" using n(1) by simp_all
  show ?thesis
    unfolding round32_def Let_def a m d round_half_even_of_int
    using nz lt q by simp
qed


lemma is_float_int_divisible:
  assumes f: "is_float_int n" and n: "0 < n"
  shows "\<exists>j. (of_int n :: rat) = of_int j * pow2 (bitlen n - 1 - 23)"
proof (cases "bitlen n - 1 - 23 \<le> 0")
  case True
  then have "pow2 (bitlen n - 1 - 23) = 1 / 2 ^ nat (23 - (bitlen n - 1))"
    by (cases "bitlen n - 1 - 23 = 0") (simp_all add: pow2_def)
  then have "(of_int n :: rat) = of_int (n * 2 ^ nat (23 - (bitlen n - 1))) * pow2 (bitlen n - 1 - 23)"
    by simp
  then show ?thesis by blast
next
  case False
  define d where "d = nat (bitlen n - 1 - 23)"
  from False have d: "bitlen n - 1 = int d + 23" "0 < d" by (simp_all add: d_def)
  from f obtain m k where mk: "n = m * 2 ^ k" "0 \<le> m" "m < 2 ^ 24"
    by (auto simp: is_float_int_def)
  have lo: "2 ^ nat (bitlen n - 1) \<le> n" using bitlen_bounds [of n] n by simp
  have "nat (bitlen n - 1) = d + 23" using d by simp
  with lo have "(2::int) ^ (d + 23) \<le> m * 2 ^ k" by (simp add: mk(1))
  also have "\<dots> < 2 ^ 24 * 2 ^ k" using mk(3) by simp
  finally have "(2::int) ^ (d + 23) < 2 ^ (24 + k)" by (simp add: power_add)
  then have "d + 23 < 24 + k" by (simp add: power_strict_increasing_iff)
  then have "d \<le> k" by simp
  then obtain c where c: "k = d + c" using le_Suc_ex by blast
  have "pow2 (bitlen n - 1 - 23) = 2 ^ d" using d by (simp add: pow2_def)
  moreover have "n = (m * 2 ^ c) * 2 ^ d" by (simp add: mk(1) c power_add)
  ultimately have "(of_int n :: rat) = of_int (m * 2 ^ c) * pow2 (bitlen n - 1 - 23)"
    by (metis of_int_mult of_int_numeral of_int_power)
  then show ?thesis by blast
qed

lemma float_of_int_exact:
  assumes "is_float_int n" "0 \<le> n" "n < 2 ^ 32"
  shows "float_of_int n = Finite (of_int n)"
proof (cases "n = 0")
  case True
  then show ?thesis by (simp add: float_of_int_def round32_def)
next
  case False
  with assms have n: "0 < n" "n < 2 ^ 128" by simp_all
  from is_float_int_divisible [OF assms(1) n(1)] obtain j
    where "(of_int n :: rat) = of_int j * pow2 (bitlen n - 1 - 23)" by blast
  from round32_exact [OF this n] show ?thesis by (simp add: float_of_int_def)
qed

lemma float_to_uint_of_int:
  "0 \<le> n \<Longrightarrow> n < 2 ^ bits \<Longrightarrow> float_to_uint bits (Finite (of_int n)) = Some n"
proof -
  assume n: "0 \<le> n" "n < 2 ^ bits"
  have "(of_int n :: rat) < of_int (2 ^ bits)" using n(2) by (simp only: of_int_less_iff)
  then show ?thesis using n(1) by (simp add: float_to_uint_def)
qed

lemma mul_demo: "float_mul (Finite 1) (Finite (13316915 / 524288)) = Finite (13316915 / 524288)"
  by code_simp

subsection \<open>Set followed by get\<close>

lemma small_is_float_int: "0 \<le> n \<Longrightarrow> n < 2 ^ 24 \<Longrightarrow> is_float_int n"
  unfolding is_float_int_def by (rule exI [of _ n], rule exI [of _ 0]) simp

lemma uint_word_of_int_32: "0 \<le> n \<Longrightarrow> n < 2 ^ 32 \<Longrightarrow> uint (word_of_int n :: 32 word) = n"
  by (simp add: uint_word_of_int take_bit_int_eq_self)

lemma uint_word_of_int_8: "0 \<le> n \<Longrightarrow> n < 2 ^ 8 \<Longrightarrow> uint (word_of_int n :: 8 word) = n"
  by (simp add: uint_word_of_int take_bit_int_eq_self)

lemma round_trip_int:
  assumes i: "index nv < nv_index_max cfg"
    and f: "set_f (cfgArray cfg ! index nv) = Set_int" "get_f (cfgArray cfg ! index nv) = Get_int"
    and v: "value nv = Finite (of_int n)" "0 \<le> n" "n < 2 ^ 32" "is_float_int n"
  shows "round_trip cfg nv other s"
  using assms
  by (simp add: round_trip_def nv_set_def nv_get_def set_int_def get_int_def table_item_Some
      float_to_uint_of_int uint_word_of_int_32 float_of_int_exact)

lemma round_trip_byte:
  assumes i: "index nv < nv_index_max cfg"
    and f: "set_f (cfgArray cfg ! index nv) = Set_ui8
            \<or> set_f (cfgArray cfg ! index nv) = Set_01 \<and> n \<le> 1
            \<or> set_f (cfgArray cfg ! index nv) = Set_012 \<and> n \<le> 2
            \<or> set_f (cfgArray cfg ! index nv) = Set_0123 \<and> n \<le> 3"
    and g: "get_f (cfgArray cfg ! index nv) = Get_ui8"
    and v: "value nv = Finite (of_int n)" "0 \<le> n" "n < 2 ^ 8"
  shows "round_trip cfg nv other s"
proof -
  let ?d = "cfgArray cfg ! index nv"
  let ?s1 = "s\<lparr>tgt_u8 := (tgt_u8 s)(target ?d := word_of_int n)\<rparr>"
  have fi: "is_float_int n" using v by (intro small_is_float_int) simp_all
  have st: "set_ui8 cfg nv s = Some (STAT_OK, nv\<lparr>valuetype := TYPE_INTEGER\<rparr>, ?s1)"
    using i v by (simp add: set_ui8_def table_item_Some float_to_uint_of_int)
  have gt: "get_ui8 cfg (other\<lparr>index := index nv\<rparr>) ?s1 =
              Some (STAT_OK, other\<lparr>index := index nv, value := value nv, valuetype := TYPE_INTEGER\<rparr>, ?s1)"
    using i v fi by (simp add: get_ui8_def table_item_Some uint_word_of_int_8 float_of_int_exact)
  have le: "\<not> float_gt (value nv) (Finite (of_int k))" if "n \<le> k" for k
    using that v(1) by simp
  have "call (set_f ?d) cfg nv s = Some (STAT_OK, nv\<lparr>valuetype := TYPE_INTEGER\<rparr>, ?s1)"
    using f st le [of 1] le [of 2] le [of 3]
    by (auto simp: set_01_def set_012_def set_0123_def)
  then show ?thesis
    using i g gt by (simp add: round_trip_def nv_set_def nv_get_def)
qed

lemma round_trip_flt:
  assumes i: "index nv < nv_index_max cfg"
    and f: "set_f (cfgArray cfg ! index nv) = Set_flt
            \<or> set_f (cfgArray cfg ! index nv) = Set_flu
               \<and> (units_mode s = MILLIMETERS \<or> float_mul (value nv) (MM_PER_INCH cfg) = value nv)"
    and g: "get_f (cfgArray cfg ! index nv) = Get_flt \<or> get_f (cfgArray cfg ! index nv) = Get_flu"
  shows "round_trip cfg nv other s"
  using assms
  by (auto simp: round_trip_def nv_set_def nv_get_def set_flt_def set_flu_def get_flt_def
      get_flu_def table_item_Some Let_def)

text \<open>
  Claim C2, as amended. For a descriptor \<open>d\<close> whose \<^verbatim>\<open>set\<close> and \<^verbatim>\<open>get\<close> are a
  generic setter and the generic getter of the same storage type, \<^verbatim>\<open>nv_set\<close> of a
  node followed by \<^verbatim>\<open>nv_get\<close> for \<open>d\<close> on any node (\<open>other\<close>, whatever it carried
  before) yields the value that was set:
  \<^item> \<^verbatim>\<open>set_int\<close>/\<^verbatim>\<open>get_int\<close>, for an integer below \<open>2^32\<close> that a float holds
    exactly (every integer below \<open>2^24\<close>, lemma \<open>small_is_float_int\<close>);
  \<^item> \<^verbatim>\<open>set_ui8\<close>/\<^verbatim>\<open>get_ui8\<close>, for an integer below 256;
  \<^item> \<^verbatim>\<open>set_01\<close>, \<^verbatim>\<open>set_012\<close>, \<^verbatim>\<open>set_0123\<close> with \<^verbatim>\<open>get_ui8\<close>, for each of their
    legal values;
  \<^item> \<^verbatim>\<open>set_flt\<close> with \<^verbatim>\<open>get_flt\<close> or \<^verbatim>\<open>get_flu\<close>, for every float, exactly as stored;
  \<^item> \<^verbatim>\<open>set_flu\<close> with \<^verbatim>\<open>get_flt\<close> or \<^verbatim>\<open>get_flu\<close>, for every float while the
    units mode is \<^verbatim>\<open>MILLIMETERS\<close>, and in any units mode for a float that the
    multiplication by \<^verbatim>\<open>MM_PER_INCH\<close> leaves as it is (such as zero).
\<close>

theorem set_then_get_round_trip:
  assumes i: "index nv < nv_index_max cfg"
  shows "(set_f (cfgArray cfg ! index nv) = Set_int \<and> get_f (cfgArray cfg ! index nv) = Get_int
            \<and> value nv = Finite (of_int n) \<and> 0 \<le> n \<and> n < 2 ^ 32 \<and> is_float_int n
          \<longrightarrow> round_trip cfg nv other s)
       \<and> (set_f (cfgArray cfg ! index nv) = Set_ui8 \<and> get_f (cfgArray cfg ! index nv) = Get_ui8
            \<and> value nv = Finite (of_int n) \<and> 0 \<le> n \<and> n < 2 ^ 8
          \<longrightarrow> round_trip cfg nv other s)
       \<and> (set_f (cfgArray cfg ! index nv) = Set_01 \<and> get_f (cfgArray cfg ! index nv) = Get_ui8
            \<and> value nv = Finite (of_int n) \<and> 0 \<le> n \<and> n \<le> 1
          \<longrightarrow> round_trip cfg nv other s)
       \<and> (set_f (cfgArray cfg ! index nv) = Set_012 \<and> get_f (cfgArray cfg ! index nv) = Get_ui8
            \<and> value nv = Finite (of_int n) \<and> 0 \<le> n \<and> n \<le> 2
          \<longrightarrow> round_trip cfg nv other s)
       \<and> (set_f (cfgArray cfg ! index nv) = Set_0123 \<and> get_f (cfgArray cfg ! index nv) = Get_ui8
            \<and> value nv = Finite (of_int n) \<and> 0 \<le> n \<and> n \<le> 3
          \<longrightarrow> round_trip cfg nv other s)
       \<and> (set_f (cfgArray cfg ! index nv) = Set_flt
            \<and> (get_f (cfgArray cfg ! index nv) = Get_flt \<or> get_f (cfgArray cfg ! index nv) = Get_flu)
          \<longrightarrow> round_trip cfg nv other s)
       \<and> (set_f (cfgArray cfg ! index nv) = Set_flu
            \<and> (get_f (cfgArray cfg ! index nv) = Get_flt \<or> get_f (cfgArray cfg ! index nv) = Get_flu)
            \<and> (units_mode s = MILLIMETERS \<or> float_mul (value nv) (MM_PER_INCH cfg) = value nv)
          \<longrightarrow> round_trip cfg nv other s)"
proof (intro conjI impI)
  assume "set_f (cfgArray cfg ! index nv) = Set_int \<and> get_f (cfgArray cfg ! index nv) = Get_int
            \<and> value nv = Finite (of_int n) \<and> 0 \<le> n \<and> n < 2 ^ 32 \<and> is_float_int n"
  then show "round_trip cfg nv other s" by (intro round_trip_int [OF i, of n]) simp_all
next
  assume "set_f (cfgArray cfg ! index nv) = Set_ui8 \<and> get_f (cfgArray cfg ! index nv) = Get_ui8
            \<and> value nv = Finite (of_int n) \<and> 0 \<le> n \<and> n < 2 ^ 8"
  then show "round_trip cfg nv other s" by (intro round_trip_byte [OF i, of n]) simp_all
next
  assume "set_f (cfgArray cfg ! index nv) = Set_01 \<and> get_f (cfgArray cfg ! index nv) = Get_ui8
            \<and> value nv = Finite (of_int n) \<and> 0 \<le> n \<and> n \<le> 1"
  then show "round_trip cfg nv other s" by (intro round_trip_byte [OF i, of n]) simp_all
next
  assume "set_f (cfgArray cfg ! index nv) = Set_012 \<and> get_f (cfgArray cfg ! index nv) = Get_ui8
            \<and> value nv = Finite (of_int n) \<and> 0 \<le> n \<and> n \<le> 2"
  then show "round_trip cfg nv other s" by (intro round_trip_byte [OF i, of n]) simp_all
next
  assume "set_f (cfgArray cfg ! index nv) = Set_0123 \<and> get_f (cfgArray cfg ! index nv) = Get_ui8
            \<and> value nv = Finite (of_int n) \<and> 0 \<le> n \<and> n \<le> 3"
  then show "round_trip cfg nv other s" by (intro round_trip_byte [OF i, of n]) simp_all
next
  assume "set_f (cfgArray cfg ! index nv) = Set_flt
            \<and> (get_f (cfgArray cfg ! index nv) = Get_flt \<or> get_f (cfgArray cfg ! index nv) = Get_flu)"
  then show "round_trip cfg nv other s" by (intro round_trip_flt [OF i]) simp_all
next
  assume "set_f (cfgArray cfg ! index nv) = Set_flu
            \<and> (get_f (cfgArray cfg ! index nv) = Get_flt \<or> get_f (cfgArray cfg ! index nv) = Get_flu)
            \<and> (units_mode s = MILLIMETERS \<or> float_mul (value nv) (MM_PER_INCH cfg) = value nv)"
  then show "round_trip cfg nv other s" by (intro round_trip_flt [OF i]) simp_all
qed

lemma demo_table_nth:
  "cfgArray demo_cfg ! 4 = \<lparr>cfgItem_t.group = ''x'', cfgItem_t.token = ''xam'', flags = {F_INITIALIZE, F_PERSIST}, cfgItem_t.precision = 0,
        get_f = Get_ui8, set_f = Set_012, target = 0, def_value = Finite 1\<rparr>"
  "cfgArray demo_cfg ! 6 = \<lparr>cfgItem_t.group = ''sys'', cfgItem_t.token = ''ln'', flags = {F_NOSTRIP}, cfgItem_t.precision = 0,
        get_f = Get_int, set_f = Set_int, target = 0, def_value = Finite 0\<rparr>"
  by (simp_all add: demo_cfg_def demo_table_def)

theorem set_then_get_round_trip_witness:
  "index (demo_nv\<lparr>index := 6, value := Finite (of_int 16777218)\<rparr>) < nv_index_max demo_cfg
   \<and> is_float_int 16777218
   \<and> round_trip demo_cfg (demo_nv\<lparr>index := 6, value := Finite (of_int 16777218)\<rparr>)
       (demo_nv\<lparr>value := Finite 7, valuetype := TYPE_FLOAT\<rparr>) demo_state
   \<and> round_trip demo_cfg (demo_nv\<lparr>index := 4, value := Finite (of_int 2)\<rparr>)
       (demo_nv\<lparr>value := Finite 7, valuetype := TYPE_FLOAT\<rparr>) (demo_state\<lparr>tgt_u8 := (\<lambda>_. 1)\<rparr>)"
proof -
  have i: "index (demo_nv\<lparr>index := 6, value := Finite (of_int 16777218)\<rparr>) < nv_index_max demo_cfg"
    by (simp add: demo_max)
  have j: "index (demo_nv\<lparr>index := 4, value := Finite (of_int 2)\<rparr>) < nv_index_max demo_cfg"
    by (simp add: demo_max)
  have f: "is_float_int 16777218"
    unfolding is_float_int_def by (rule exI [of _ 8388609], rule exI [of _ 1]) simp
  from set_then_get_round_trip [OF i, where n = 16777218 and s = demo_state
      and other = "demo_nv\<lparr>value := Finite 7, valuetype := TYPE_FLOAT\<rparr>"]
    set_then_get_round_trip [OF j, where n = 2 and s = "demo_state\<lparr>tgt_u8 := (\<lambda>_. 1)\<rparr>"
      and other = "demo_nv\<lparr>value := Finite 7, valuetype := TYPE_FLOAT\<rparr>"]
    f i show ?thesis
    by (simp add: demo_table_nth)
qed

text \<open>
  Claim C2 as stated fails: the node's value is a single precision float, which does
  not hold every 32-bit integer. The integer 16777217, converted to the node's value
  as \<^verbatim>\<open>nv_add_integer\<close> and \<^verbatim>\<open>get_int\<close> do, is stored by \<^verbatim>\<open>set_int\<close> as 16777216 and
  read back as 16777216; a storage location that holds 16777217 is read by
  \<^verbatim>\<open>get_int\<close> as 16777216. And a units-aware float that is set to 1.0 while the units
  mode is \<^verbatim>\<open>INCHES\<close> reads back as 25.4 (in single precision).
\<close>

lemma float_of_int_16777217: "float_of_int 16777217 = Finite 16777216"
  by code_simp

theorem integer_round_trip_counterexample:
  "Option.bind (nv_set demo_cfg (demo_nv\<lparr>index := 6, value := float_of_int 16777217\<rparr>) demo_state)
     (\<lambda>(st1, nv1, s1). map_option (\<lambda>(st2, nv2, s2). (st1, st2, uint (tgt_u32 s1 0), value nv2))
         (nv_get demo_cfg nv1 s1))
   = Some (STAT_OK, STAT_OK, 16777216, Finite 16777216)
   \<and> map_option (\<lambda>(st, nv', s'). (st, value nv'))
        (nv_get demo_cfg (demo_nv\<lparr>index := 6\<rparr>) (demo_state\<lparr>tgt_u32 := (\<lambda>_. 16777217)\<rparr>))
     = Some (STAT_OK, Finite 16777216)
   \<and> Option.bind (nv_set demo_cfg (demo_nv\<lparr>index := 1, value := Finite 1\<rparr>)
                     (demo_state\<lparr>units_mode := INCHES\<rparr>))
       (\<lambda>(st1, nv1, s1). map_option (\<lambda>(st2, nv2, s2). (st1, st2, value nv2))
           (nv_get demo_cfg nv1 s1))
     = Some (STAT_OK, STAT_OK, Finite (13316915 / 524288))"
proof -
  have i1: "table_item demo_cfg 1 = Some (cfgArray demo_cfg ! 1)"
    by (simp add: table_item_Some demo_max)
  have d1: "set_f (cfgArray demo_cfg ! 1) = Set_flu" "get_f (cfgArray demo_cfg ! 1) = Get_flu"
    "target (cfgArray demo_cfg ! 1) = 1"
    by (simp_all add: demo_cfg_sel(1) demo_table_def)
  have inches: "Option.bind (nv_set demo_cfg (demo_nv\<lparr>index := 1, value := Finite 1\<rparr>)
                     (demo_state\<lparr>units_mode := INCHES\<rparr>))
       (\<lambda>(st1, nv1, s1). map_option (\<lambda>(st2, nv2, s2). (st1, st2, value nv2))
           (nv_get demo_cfg nv1 s1))
     = Some (STAT_OK, STAT_OK, Finite (13316915 / 524288))"
    by (simp add: nv_set_def nv_get_def demo_max d1 set_flu_def get_flu_def get_flt_def i1
        demo_cfg_sel(5) mul_demo del: float_mul.simps One_nat_def)
  have f: "is_float_int 16777216"
    unfolding is_float_int_def by (rule exI [of _ 1], rule exI [of _ 24]) simp
  have e: "float_of_int 16777216 = Finite 16777216"
    using float_of_int_exact [OF f] by simp
  have t: "float_to_uint 32 (Finite 16777216) = Some 16777216"
    using float_to_uint_of_int [of 16777216 32] by simp
  have ti: "table_item demo_cfg 6 = Some (cfgArray demo_cfg ! 6)"
    by (simp add: table_item_Some demo_max)
  have ints: "Option.bind (nv_set demo_cfg (demo_nv\<lparr>index := 6, value := float_of_int 16777217\<rparr>) demo_state)
     (\<lambda>(st1, nv1, s1). map_option (\<lambda>(st2, nv2, s2). (st1, st2, uint (tgt_u32 s1 0), value nv2))
         (nv_get demo_cfg nv1 s1))
   = Some (STAT_OK, STAT_OK, 16777216, Finite 16777216)
   \<and> map_option (\<lambda>(st, nv', s'). (st, value nv'))
        (nv_get demo_cfg (demo_nv\<lparr>index := 6\<rparr>) (demo_state\<lparr>tgt_u32 := (\<lambda>_. 16777217)\<rparr>))
     = Some (STAT_OK, Finite 16777216)"
    by (simp add: nv_set_def nv_get_def demo_max demo_table_nth set_int_def get_int_def ti
        float_of_int_16777217 t e)
  from ints inches show ?thesis by (intro conjI) (elim conjE, assumption)+
qed

subsection \<open>Range-restricted setters\<close>

lemma set_ui8_legal:
  assumes i: "index nv < nv_index_max cfg" and v: "value nv = Finite (of_int k)" "0 \<le> k" "k < 2 ^ 8"
  shows "set_ui8 cfg nv s =
           Some (STAT_OK, nv\<lparr>valuetype := TYPE_INTEGER\<rparr>,
                 s\<lparr>tgt_u8 := (tgt_u8 s)(target (cfgArray cfg ! index nv) := word_of_int k)\<rparr>)"
  using i v by (simp add: set_ui8_def table_item_Some float_to_uint_of_int)

text \<open>
  Claim C4, as amended: each of \<^verbatim>\<open>set_01\<close>, \<^verbatim>\<open>set_012\<close>, \<^verbatim>\<open>set_0123\<close> rejects every
  value greater than its largest legal value with \<^verbatim>\<open>STAT_INPUT_VALUE_UNSUPPORTED\<close> and
  leaves node and storage as they were, and stores every legal value \<open>k\<close> and
  returns \<^verbatim>\<open>STAT_OK\<close>.
\<close>

theorem range_setters_validate:
  assumes i: "index nv < nv_index_max cfg"
  shows "(float_gt (value nv) (Finite 1) \<longrightarrow>
            set_01 cfg nv s = Some (STAT_INPUT_VALUE_UNSUPPORTED, nv, s))
       \<and> (float_gt (value nv) (Finite 2) \<longrightarrow>
            set_012 cfg nv s = Some (STAT_INPUT_VALUE_UNSUPPORTED, nv, s))
       \<and> (float_gt (value nv) (Finite 3) \<longrightarrow>
            set_0123 cfg nv s = Some (STAT_INPUT_VALUE_UNSUPPORTED, nv, s))
       \<and> (value nv = Finite (of_int k) \<and> 0 \<le> k \<longrightarrow>
            (k \<le> 1 \<longrightarrow> set_01 cfg nv s =
               Some (STAT_OK, nv\<lparr>valuetype := TYPE_INTEGER\<rparr>,
                     s\<lparr>tgt_u8 := (tgt_u8 s)(target (cfgArray cfg ! index nv) := word_of_int k)\<rparr>))
          \<and> (k \<le> 2 \<longrightarrow> set_012 cfg nv s =
               Some (STAT_OK, nv\<lparr>valuetype := TYPE_INTEGER\<rparr>,
                     s\<lparr>tgt_u8 := (tgt_u8 s)(target (cfgArray cfg ! index nv) := word_of_int k)\<rparr>))
          \<and> (k \<le> 3 \<longrightarrow> set_0123 cfg nv s =
               Some (STAT_OK, nv\<lparr>valuetype := TYPE_INTEGER\<rparr>,
                     s\<lparr>tgt_u8 := (tgt_u8 s)(target (cfgArray cfg ! index nv) := word_of_int k)\<rparr>)))"
proof -
  have legal: "set_ui8 cfg nv s =
           Some (STAT_OK, nv\<lparr>valuetype := TYPE_INTEGER\<rparr>,
                 s\<lparr>tgt_u8 := (tgt_u8 s)(target (cfgArray cfg ! index nv) := word_of_int k)\<rparr>)"
    if "value nv = Finite (of_int k)" "0 \<le> k" "k \<le> 3"
    using set_ui8_legal [OF i that(1) that(2)] that(3) by simp
  show ?thesis
    by (auto simp: set_01_def set_012_def set_0123_def legal)
qed

theorem range_setters_validate_witness:
  "index (demo_nv\<lparr>index := 4, value := Finite (of_int 2)\<rparr>) < nv_index_max demo_cfg
   \<and> float_gt (Finite (of_int 2)) (Finite 1)
   \<and> set_01 demo_cfg (demo_nv\<lparr>index := 4, value := Finite (of_int 2)\<rparr>) demo_state =
        Some (STAT_INPUT_VALUE_UNSUPPORTED, demo_nv\<lparr>index := 4, value := Finite (of_int 2)\<rparr>, demo_state)
   \<and> set_012 demo_cfg (demo_nv\<lparr>index := 4, value := Finite (of_int 2)\<rparr>) demo_state =
        Some (STAT_OK, demo_nv\<lparr>index := 4, value := Finite (of_int 2), valuetype := TYPE_INTEGER\<rparr>,
              demo_state\<lparr>tgt_u8 := (tgt_u8 demo_state)(0 := 2)\<rparr>)"
proof -
  have i: "index (demo_nv\<lparr>index := 4, value := Finite (of_int 2)\<rparr>) < nv_index_max demo_cfg"
    by (simp add: demo_max)
  from range_setters_validate [OF i, of demo_state 2] i show ?thesis
    by (simp add: demo_table_nth)
qed

text \<open>
  Claim C4 as stated fails: the setters test only the upper bound. The value 0.5 is
  not in \<open>{0, 1, 2}\<close>, yet \<^verbatim>\<open>set_012\<close> returns \<^verbatim>\<open>STAT_OK\<close> and overwrites the
  storage (which held 2) with 0.
\<close>

theorem range_setter_counterexample:
  "Finite (1 / 2) \<notin> {Finite 0, Finite 1, Finite 2}
   \<and> map_option (\<lambda>(st, nv', s'). (st, tgt_u8 s' 0))
        (set_012 demo_cfg (demo_nv\<lparr>index := 4, value := Finite (1 / 2)\<rparr>)
           (demo_state\<lparr>tgt_u8 := (\<lambda>_. 2)\<rparr>))
      = Some (STAT_OK, 0)"
proof -
  have ti: "table_item demo_cfg 4 = Some (cfgArray demo_cfg ! 4)"
    by (simp add: table_item_Some demo_max)
  have fl: "\<lfloor>(1 / 2 :: rat)\<rfloor> = 0"
    by (simp add: floor_eq_iff)
  show ?thesis
    by (simp add: set_012_def set_ui8_def ti demo_table_nth float_to_uint_def fl)
qed

subsection \<open>Token resolver\<close>

lemma prefix_match_take: "prefix_match t q \<longleftrightarrow> take 5 t = take 5 q"
proof
  assume "prefix_match t q"
  then show "take 5 t = take 5 q" by (auto simp: prefix_match_def)
next
  assume e: "take 5 t = take 5 q"
  then have "length (take 5 t) = length (take 5 q)" by simp
  then have l: "min (length t) 5 = min (length q) 5" by simp
  show "prefix_match t q"
  proof (cases "length t < 5")
    case True
    with l have "length q < 5" by linarith
    with True e show ?thesis by (simp add: prefix_match_def)
  next
    case False
    with l have "5 \<le> length q" by linarith
    with False e show ?thesis by (simp add: prefix_match_def)
  qed
qed

lemma char_at_NUL_iff: "NUL \<notin> set s \<Longrightarrow> char_at s k = NUL \<longleftrightarrow> length s \<le> k"
  by (metis char_at_def linorder_not_less nth_mem)

lemma all_less_5: "(\<forall>k<5. P k) \<longleftrightarrow> P (0::nat) \<and> P 1 \<and> P 2 \<and> P 3 \<and> P 4"
  by (auto simp: eval_nat_numeral less_Suc_eq)

lemma token_match_char_at:
  assumes "NUL \<notin> set t" "NUL \<notin> set q"
  shows "token_match t q \<longleftrightarrow> (\<forall>k<5. char_at t k = char_at q k)"
proof -
  have t: "char_at t 1 = NUL \<Longrightarrow> char_at t 2 = NUL" "char_at t 2 = NUL \<Longrightarrow> char_at t 3 = NUL"
    "char_at t 3 = NUL \<Longrightarrow> char_at t 4 = NUL"
    using assms(1) by (simp_all add: char_at_NUL_iff)
  have q: "char_at q 1 = NUL \<Longrightarrow> char_at q 2 = NUL" "char_at q 2 = NUL \<Longrightarrow> char_at q 3 = NUL"
    "char_at q 3 = NUL \<Longrightarrow> char_at q 4 = NUL"
    using assms(2) by (simp_all add: char_at_NUL_iff)
  show ?thesis
    unfolding token_match_def all_less_5 using t q by auto
qed

lemma take5_char_at:
  assumes "NUL \<notin> set t" "NUL \<notin> set q"
  shows "take 5 t = take 5 q \<longleftrightarrow> (\<forall>k<5. char_at t k = char_at q k)"
proof
  assume e: "take 5 t = take 5 q"
  then have "length (take 5 t) = length (take 5 q)" by simp
  then have l: "min (length t) 5 = min (length q) 5" by simp
  show "\<forall>k<5. char_at t k = char_at q k"
  proof (intro allI impI)
    fix k :: nat assume k: "k < 5"
    show "char_at t k = char_at q k"
    proof (cases "k < length t")
      case True
      with l k have kq: "k < length q" by linarith
      have "take 5 t ! k = take 5 q ! k" using e by simp
      with True kq k show ?thesis by (simp add: char_at_def)
    next
      case False
      with l k have "\<not> k < length q" by linarith
      with False show ?thesis by (simp add: char_at_def)
    qed
  qed
next
  assume c: "\<forall>k<5. char_at t k = char_at q k"
  have l: "min (length t) 5 = min (length q) 5"
  proof (rule ccontr)
    assume n: "min (length t) 5 \<noteq> min (length q) 5"
    define m where "m = min (min (length t) 5) (min (length q) 5)"
    from n have m: "m < 5" "(length t \<le> m) \<noteq> (length q \<le> m)" by (auto simp: m_def)
    from c m(1) have "char_at t m = char_at q m" by simp
    then have "(char_at t m = NUL) = (char_at q m = NUL)" by simp
    with m(2) assms show False by (simp add: char_at_NUL_iff)
  qed
  show "take 5 t = take 5 q"
  proof (rule nth_equalityI)
    show "length (take 5 t) = length (take 5 q)" using l by simp
  next
    fix k assume "k < length (take 5 t)"
    then have k: "k < 5" "k < length t" by simp_all
    with l have kq: "k < length q" by linarith
    from c k(1) have "char_at t k = char_at q k" by simp
    with k kq show "take 5 t ! k = take 5 q ! k" by (simp add: char_at_def)
  qed
qed

lemma token_match_prefix:
  "NUL \<notin> set t \<Longrightarrow> NUL \<notin> set q \<Longrightarrow> token_match t q \<longleftrightarrow> prefix_match t q"
  by (simp add: token_match_char_at take5_char_at prefix_match_take)

lemma nv_get_index_scan_first:
  "(\<exists>r. nv_get_index_scan cfg str i = r \<and> i \<le> r \<and> r < nv_index_max cfg
         \<and> token_match (cfgItem_t.token (cfgArray cfg ! r)) str
         \<and> (\<forall>j. i \<le> j \<and> j < r \<longrightarrow> \<not> token_match (cfgItem_t.token (cfgArray cfg ! j)) str))
   \<or> (nv_get_index_scan cfg str i = NO_MATCH cfg
       \<and> (\<forall>j. i \<le> j \<and> j < nv_index_max cfg \<longrightarrow> \<not> token_match (cfgItem_t.token (cfgArray cfg ! j)) str))"
proof (induction cfg str i rule: nv_get_index_scan.induct)
  case (1 cfg str i)
  show ?case
  proof (cases "i < nv_index_max cfg")
    case False
    then show ?thesis by (intro disjI2) auto
  next
    case True
    show ?thesis
    proof (cases "token_match (cfgItem_t.token (cfgArray cfg ! i)) str")
      case m: True
      with True show ?thesis by auto
    next
      case m: False
      have step: "nv_get_index_scan cfg str i = nv_get_index_scan cfg str (Suc i)"
        using True m by simp
      have skip: "\<And>j. i \<le> j \<Longrightarrow> \<not> token_match (cfgItem_t.token (cfgArray cfg ! j)) str \<or> Suc i \<le> j"
        using m by (metis Suc_leI le_neq_implies_less)
      from "1.IH" [OF True m] show ?thesis
        unfolding step using skip by (metis Suc_leD)
    qed
  qed
qed

text \<open>
  Claim C8: for a group and a token within their declared sizes, \<^verbatim>\<open>nv_get_index\<close>
  scans the table in index order for the concatenation of group and token and
  returns the first index whose token matches it, where a match is that both strings
  end together within the first five characters or that their five leading characters
  are equal; it returns \<^verbatim>\<open>NO_MATCH\<close> when no entry of the table matches.
\<close>

theorem nv_get_index_first_match:
  assumes g: "length grp \<le> GROUP_LEN" "NUL \<notin> set grp"
    and t: "length tok \<le> TOKEN_LEN" "NUL \<notin> set tok"
    and tab: "\<forall>d \<in> set (cfgArray cfg). NUL \<notin> set (cfgItem_t.token d)"
  shows "\<exists>r. nv_get_index cfg grp tok = Some r
           \<and> (r < nv_index_max cfg
                \<and> prefix_match (cfgItem_t.token (cfgArray cfg ! r)) (grp @ tok)
                \<and> (\<forall>j<r. \<not> prefix_match (cfgItem_t.token (cfgArray cfg ! j)) (grp @ tok))
              \<or> r = NO_MATCH cfg
                \<and> (\<forall>j<nv_index_max cfg. \<not> prefix_match (cfgItem_t.token (cfgArray cfg ! j)) (grp @ tok)))"
proof -
  let ?str = "grp @ tok"
  have q: "NUL \<notin> set ?str" using g t by simp
  have tk: "take (TOKEN_LEN + 1) tok = tok" using t by simp
  have r: "nv_get_index cfg grp tok = Some (nv_get_index_scan cfg ?str 0)"
    using g t by (simp add: nv_get_index_def tk)
  have m: "token_match (cfgItem_t.token (cfgArray cfg ! j)) ?str
             \<longleftrightarrow> prefix_match (cfgItem_t.token (cfgArray cfg ! j)) ?str"
    if "j < nv_index_max cfg" for j
  proof -
    from that have "cfgArray cfg ! j \<in> set (cfgArray cfg)" by (simp add: nv_index_max_def)
    with tab have "NUL \<notin> set (cfgItem_t.token (cfgArray cfg ! j))" by blast
    then show ?thesis using q by (rule token_match_prefix)
  qed
  from nv_get_index_scan_first [of cfg ?str 0] show ?thesis
  proof (elim disjE exE conjE)
    fix k
    assume k: "nv_get_index_scan cfg ?str 0 = k" "k < nv_index_max cfg"
      "token_match (cfgItem_t.token (cfgArray cfg ! k)) ?str"
      and first: "\<forall>j. 0 \<le> j \<and> j < k \<longrightarrow> \<not> token_match (cfgItem_t.token (cfgArray cfg ! j)) ?str"
    have before: "\<forall>j<k. \<not> prefix_match (cfgItem_t.token (cfgArray cfg ! j)) ?str"
    proof (intro allI impI)
      fix j assume j: "j < k"
      then have "j < nv_index_max cfg" using k(2) by simp
      from m [OF this] first j show "\<not> prefix_match (cfgItem_t.token (cfgArray cfg ! j)) ?str"
        by simp
    qed
    have here: "prefix_match (cfgItem_t.token (cfgArray cfg ! k)) ?str"
      using m [OF k(2)] k(3) by simp
    have "nv_get_index cfg grp tok = Some k" using r k(1) by simp
    with k(2) here before show ?thesis by blast
  next
    assume a: "nv_get_index_scan cfg ?str 0 = NO_MATCH cfg"
      and none: "\<forall>j. 0 \<le> j \<and> j < nv_index_max cfg \<longrightarrow> \<not> token_match (cfgItem_t.token (cfgArray cfg ! j)) ?str"
    have all: "\<forall>j<nv_index_max cfg. \<not> prefix_match (cfgItem_t.token (cfgArray cfg ! j)) ?str"
    proof (intro allI impI)
      fix j assume j: "j < nv_index_max cfg"
      from m [OF this] none j show "\<not> prefix_match (cfgItem_t.token (cfgArray cfg ! j)) ?str"
        by simp
    qed
    have "nv_get_index cfg grp tok = Some (NO_MATCH cfg)" using r a by simp
    with all show ?thesis by blast
  qed
qed

lemma demo_tokens_no_NUL: "\<forall>d \<in> set (cfgArray demo_cfg). NUL \<notin> set (cfgItem_t.token d)"
  by (simp add: demo_cfg_sel demo_table_def NUL_def)

lemma demo_get_index_xfr: "nv_get_index demo_cfg ''x'' ''fr'' = Some 2"
  by (simp add: nv_get_index_def GROUP_LEN_def TOKEN_LEN_def demo_max demo_cfg_sel demo_table_def
      token_match_def char_at_def NUL_def)

theorem nv_get_index_first_match_witness:
  "length ''x'' \<le> GROUP_LEN \<and> NUL \<notin> set ''x'' \<and> length ''fr'' \<le> TOKEN_LEN \<and> NUL \<notin> set ''fr''
   \<and> nv_get_index demo_cfg ''x'' ''fr'' = Some 2
   \<and> prefix_match (cfgItem_t.token (cfgArray demo_cfg ! 2)) (''x'' @ ''fr'')
   \<and> \<not> prefix_match (cfgItem_t.token (cfgArray demo_cfg ! 0)) (''x'' @ ''fr'')
   \<and> \<not> prefix_match (cfgItem_t.token (cfgArray demo_cfg ! 1)) (''x'' @ ''fr'')"
proof -
  have h: "length ''x'' \<le> GROUP_LEN" "NUL \<notin> set ''x''" "length ''fr'' \<le> TOKEN_LEN" "NUL \<notin> set ''fr''"
    by (simp_all add: GROUP_LEN_def TOKEN_LEN_def NUL_def)
  have n: "2 \<noteq> NO_MATCH demo_cfg" by (simp add: demo_cfg_sel)
  from nv_get_index_first_match [OF h demo_tokens_no_NUL] obtain r where
    r: "nv_get_index demo_cfg ''x'' ''fr'' = Some r"
    and d: "r < nv_index_max demo_cfg
                \<and> prefix_match (cfgItem_t.token (cfgArray demo_cfg ! r)) (''x'' @ ''fr'')
                \<and> (\<forall>j<r. \<not> prefix_match (cfgItem_t.token (cfgArray demo_cfg ! j)) (''x'' @ ''fr''))
              \<or> r = NO_MATCH demo_cfg
                \<and> (\<forall>j<nv_index_max demo_cfg. \<not> prefix_match (cfgItem_t.token (cfgArray demo_cfg ! j)) (''x'' @ ''fr''))"
    by blast
  from r demo_get_index_xfr have r2: "r = 2" by simp
  from d n have "prefix_match (cfgItem_t.token (cfgArray demo_cfg ! 2)) (''x'' @ ''fr'')
                \<and> (\<forall>j<2. \<not> prefix_match (cfgItem_t.token (cfgArray demo_cfg ! j)) (''x'' @ ''fr''))"
    unfolding r2 by simp
  then have "prefix_match (cfgItem_t.token (cfgArray demo_cfg ! 2)) (''x'' @ ''fr'')"
    "\<not> prefix_match (cfgItem_t.token (cfgArray demo_cfg ! 0)) (''x'' @ ''fr'')"
    "\<not> prefix_match (cfgItem_t.token (cfgArray demo_cfg ! 1)) (''x'' @ ''fr'')"
    by simp_all
  with h demo_get_index_xfr show ?thesis by (intro conjI)
qed

subsection \<open>Shared string arena and string nodes\<close>

lemma demo_list_nv_list:
  "nv_list demo_list_state =
       [demo_nv\<lparr>nx := Some 1, valuetype := TYPE_PARENT, token := ''r''\<rparr>,
        demo_nv\<lparr>pv := Some 0, nx := Some 2, depth := 1\<rparr>,
        demo_nv\<lparr>pv := Some 1, nx := Some 3, depth := 1\<rparr>,
        demo_nv\<lparr>pv := Some 2, nx := Some 4, depth := 1\<rparr>,
        demo_nv\<lparr>pv := Some 3, depth := 1\<rparr>]"
  by (simp add: demo_list_state_def nv_reset_nvObj_list_def demo_state_def demo_nv_def
      eval_nat_numeral Let_def nv_body_def)

lemma demo_list_nvStr: "nvStr demo_list_state = \<lparr>wp = 0, string = replicate 8 (CHR 0x00)\<rparr>"
  by (simp add: demo_list_state_def nv_reset_nvObj_list_def demo_state_def Let_def)


lemma nv_copy_string_full:
  "NV_SHARED_STRING_LEN cfg < wp (nvStr s) + length src \<Longrightarrow>
     nv_copy_string cfg nv src s = Some (STAT_BUFFER_FULL, nv, s)"
  by (simp add: nv_copy_string_def)

lemma nv_copy_string_fits:
  assumes "wp (nvStr s) + length src < NV_SHARED_STRING_LEN cfg"
    and "length (string (nvStr s)) = NV_SHARED_STRING_LEN cfg"
  shows "\<exists>buf. nv_copy_string cfg nv src s =
           Some (STAT_OK, nv\<lparr>stringp := Some (wp (nvStr s))\<rparr>,
                 s\<lparr>nvStr := \<lparr>wp = wp (nvStr s) + length src + 1, string = buf\<rparr>\<rparr>)
         \<and> length buf = NV_SHARED_STRING_LEN cfg
         \<and> take (wp (nvStr s)) buf = take (wp (nvStr s)) (string (nvStr s))
         \<and> take (length src + 1) (drop (wp (nvStr s)) buf) = src @ [NUL]
         \<and> drop (wp (nvStr s) + length src + 1) buf = drop (wp (nvStr s) + length src + 1) (string (nvStr s))"
proof -
  let ?w = "wp (nvStr s)" and ?b = "string (nvStr s)"
  let ?buf = "take ?w ?b @ src @ [NUL] @ drop (?w + length src + 1) ?b"
  have l: "length (take ?w ?b) = ?w" using assms by simp
  have c: "nv_copy_string cfg nv src s =
           Some (STAT_OK, nv\<lparr>stringp := Some ?w\<rparr>,
                 s\<lparr>nvStr := \<lparr>wp = ?w + length src + 1, string = ?buf\<rparr>\<rparr>)"
    using assms by (simp add: nv_copy_string_def strcpy_at_def)
  have 1: "length ?buf = NV_SHARED_STRING_LEN cfg" using assms by simp
  have 2: "take ?w ?buf = take ?w ?b" using l by simp
  have 3: "take (length src + 1) (drop ?w ?buf) = src @ [NUL]" using l by simp
  have "length (take ?w ?b @ src @ [NUL]) = ?w + length src + 1" using l by simp
  then have 4: "drop (?w + length src + 1) ?buf = drop (?w + length src + 1) ?b"
    by (metis append.assoc append_eq_conv_conj)
  from c 1 2 3 4 show ?thesis by blast
qed

text \<open>
  Claim C3 says that \<^verbatim>\<open>nv_copy_string\<close> never writes beyond the capacity of the arena.
  The guard lets a string through whose characters end exactly at the capacity
  (lemma \<open>nv_copy_string_full\<close> covers what it rejects, lemma \<open>nv_copy_string_fits\<close>
  what fits with its terminator); \<^verbatim>\<open>strcpy\<close> then writes the terminator one byte
  behind the array. With a capacity of 8, the write offset at 5 and the string
  \<^verbatim>\<open>"abc"\<close> the call is not refused and the copy does not fit.
\<close>

theorem nv_copy_string_terminator_overrun:
  "NV_SHARED_STRING_LEN demo_cfg = 8
   \<and> length (string (nvStr (demo_state\<lparr>nvStr := \<lparr>wp = 5, string = replicate 8 NUL\<rparr>\<rparr>))) = 8
   \<and> nv_copy_string demo_cfg demo_nv ''abc'' (demo_state\<lparr>nvStr := \<lparr>wp = 5, string = replicate 8 NUL\<rparr>\<rparr>)
       = None"
  by (simp add: nv_copy_string_def strcpy_at_def demo_cfg_def)

lemma nv_first_empty_slot:
  "nv_first_empty n lst p = Some (Some q) \<Longrightarrow> q < length lst \<and> valuetype (lst ! q) = TYPE_EMPTY"
  by (induction n lst p rule: nv_first_empty.induct) (auto split: if_splits option.splits)

text \<open>
  Claim C5, as amended: when the arena refuses the string, \<^verbatim>\<open>nv_add_string\<close> returns
  no node, the arena is unchanged, and the first empty node of the body stays empty
  with its value, index and string reference as before; its token however has
  already been overwritten with the first \<^verbatim>\<open>TOKEN_LEN\<close> characters of the new token.
\<close>

theorem nv_add_string_buffer_full:
  assumes full: "NV_SHARED_STRING_LEN cfg < wp (nvStr s) + length str"
    and slot: "nv_first_empty (NV_BODY_LEN cfg) (nv_list s) nv_body = Some (Some p)"
  shows "\<exists>s'. nv_add_string cfg tok str s = Some (None, s')
           \<and> s' = s\<lparr>nv_list := (nv_list s)[p := (nv_list s ! p)\<lparr>token := take TOKEN_LEN tok\<rparr>]\<rparr>
           \<and> valuetype (nv_list s' ! p) = TYPE_EMPTY
           \<and> value (nv_list s' ! p) = value (nv_list s ! p)
           \<and> index (nv_list s' ! p) = index (nv_list s ! p)
           \<and> stringp (nv_list s' ! p) = stringp (nv_list s ! p)
           \<and> nvStr s' = nvStr s"
  using nv_first_empty_slot [OF slot] full slot
  by (simp add: nv_add_string_def nv_copy_string_full)

lemma demo_body_len: "NV_BODY_LEN demo_cfg = Suc (Suc (Suc 0))"
  by (simp add: demo_cfg_def)

lemma demo_first_empty: "nv_first_empty (NV_BODY_LEN demo_cfg) (nv_list demo_list_state) nv_body = Some (Some 1)"
  by (simp add: demo_body_len demo_list_nv_list nv_body_def demo_nv_def)

lemma demo_full: "NV_SHARED_STRING_LEN demo_cfg < wp (nvStr demo_list_state) + length ''hello, world''"
  by (simp add: demo_cfg_def demo_list_nvStr)

theorem nv_add_string_buffer_full_witness:
  "NV_SHARED_STRING_LEN demo_cfg < wp (nvStr demo_list_state) + length ''hello, world''
   \<and> nv_add_string demo_cfg ''msg'' ''hello, world'' demo_list_state =
       Some (None, demo_list_state\<lparr>nv_list := (nv_list demo_list_state)
                [1 := (nv_list demo_list_state ! 1)\<lparr>token := ''msg''\<rparr>]\<rparr>)"
  using nv_add_string_buffer_full [OF demo_full demo_first_empty, of "''msg''"] demo_full
  by (auto simp: TOKEN_LEN_def)

text \<open>
  Claim C5 as stated fails: the token is copied into the node before the string is
  copied into the arena. After a failed add of \<^verbatim>\<open>"msg"\<close> the first body node, whose
  token was empty, carries the token \<^verbatim>\<open>"msg"\<close>.
\<close>

theorem nv_add_string_token_counterexample:
  "map_option (\<lambda>(r, s'). (r, token (nv_list s' ! 1), valuetype (nv_list s' ! 1)))
      (nv_add_string demo_cfg ''msg'' ''hello, world'' demo_list_state)
     = Some (None, ''msg'', TYPE_EMPTY)
   \<and> token (nv_list demo_list_state ! 1) = []"
  using demo_first_empty demo_full
  by (simp add: nv_add_string_def nv_copy_string_full TOKEN_LEN_def)
    (simp add: demo_list_nv_list demo_nv_def)

subsection \<open>Group expansion\<close>

lemma call_getter:
  assumes "is_getter g" "index nv < nv_index_max cfg"
    and "value nv = Finite 0" "nvObj_t.precision nv = 0"
  shows "\<exists>st. call g cfg nv s =
           Some (st, nv\<lparr>valuetype := read_kind g,
                        value := read_value g (cfgArray cfg ! index nv) s,
                        precision := read_precision g (cfgArray cfg ! index nv)\<rparr>, s)"
  using assms
  by (cases nv)
    (auto simp: is_getter_def get_nul_def get_ui8_def get_int_def get_flt_def get_flu_def
      table_item_Some)

lemma call_getter_nv_list:
  assumes "is_getter g"
  shows "call g cfg nv (s\<lparr>nv_list := l\<rparr>) =
           map_option (\<lambda>(st, nv', s'). (st, nv', s'\<lparr>nv_list := l\<rparr>)) (call g cfg nv s)"
  using assms
  by (auto simp: is_getter_def get_nul_def get_ui8_def get_int_def get_flt_def get_flu_def
      split: option.splits)

lemma read_kind_getter: "is_getter g \<Longrightarrow> read_kind g \<noteq> TYPE_PARENT"
  by (auto simp: is_getter_def)

lemma read_value_nv_list: "read_value g d (s\<lparr>nv_list := l\<rparr>) = read_value g d s"
  by (cases g) simp_all

lemma child_node_nv_list:
  "child_node cfg (s\<lparr>nv_list := l\<rparr>) dep i old = child_node cfg s dep i old"
  by (simp add: child_node_def read_value_nv_list)

lemma child_node_index: "child_node cfg s dep i (old\<lparr>index := j\<rparr>) = child_node cfg s dep i old"
  by (simp add: child_node_def)

lemma child_node_fields:
  "depth (child_node cfg s dep i old) = dep"
  "valuetype (child_node cfg s dep i old) = read_kind (get_f (cfgArray cfg ! i))"
  by (simp_all add: child_node_def Let_def)

lemma nv_get_nvObj_child:
  assumes q: "q < length (nv_list s)"
    and pv: "pv (nv_list s ! q) = Some p'" "p' < length (nv_list s)" "p' \<noteq> q"
    and i: "index (nv_list s ! q) = i" "i < nv_index_max cfg"
    and g: "is_getter (get_f (cfgArray cfg ! i))"
    and st: "F_NOSTRIP \<in> flags (cfgArray cfg ! i)
             \<or> length (cfgItem_t.group (cfgArray cfg ! i)) \<le> length (cfgItem_t.token (cfgArray cfg ! i))"
  shows "nv_get_nvObj cfg q s =
           Some (s\<lparr>nv_list := (nv_list s)
                   [q := child_node cfg s (child_depth (nv_list s) p') i (nv_list s ! q)]\<rparr>)"
proof -
  let ?lst = "nv_list s"
  define D where "D = child_depth ?lst p'"
  define d where "d = cfgArray cfg ! i"
  define nv0 where "nv0 = (?lst ! q)\<lparr>valuetype := TYPE_EMPTY, index := 0, value := Finite 0,
                                precision := 0, token := [], group := [], stringp := None\<rparr>"
  have pv0: "pv nv0 = Some p'" using pv(1) by (simp add: nv0_def)
  have same: "(?lst[q := nv0]) ! p' = ?lst ! p'" using pv(3) by simp
  have r: "nv_reset_nvObj ?lst q = Some (?lst[q := nv0\<lparr>depth := D\<rparr>])"
    using q pv(2) pv0 same
    by (simp add: nv_reset_nvObj_def Let_def nv0_def [symmetric] D_def child_depth_def)
  define nv1 where "nv1 = nv0\<lparr>depth := D, index := i,
                               token := cfgItem_t.token d, group := cfgItem_t.group d\<rparr>"
  define nv2 where "nv2 = nv1\<lparr>token := (if cfgItem_t.group d \<noteq> [] \<and> F_NOSTRIP \<notin> flags d
                                  then drop (length (cfgItem_t.group d)) (cfgItem_t.token d)
                                  else cfgItem_t.token d),
                            group := (if F_NOSTRIP \<in> flags d then [] else cfgItem_t.group d)\<rparr>"
  define nv3 where "nv3 = nv2\<lparr>valuetype := read_kind (get_f d),
                            value := read_value (get_f d) d s,
                            precision := read_precision (get_f d) d\<rparr>"
  have sg: "strip_group d nv1 = Some nv2"
    using st by (auto simp: strip_group_def nv1_def nv2_def d_def)
  have i2: "index nv2 < nv_index_max cfg" "index nv2 = i"
    using i(2) by (simp_all add: nv2_def nv1_def)
  have z: "value nv2 = Finite 0" "nvObj_t.precision nv2 = 0"
    by (simp_all add: nv2_def nv1_def nv0_def)
  from call_getter [OF g i2(1) z, where s = s] obtain sta where
    c: "call (get_f (cfgArray cfg ! i)) cfg nv2 s = Some (sta, nv3, s)"
    unfolding nv3_def d_def i2(2) by blast
  have c': "call (get_f d) cfg nv2 (s\<lparr>nv_list := l\<rparr>) = Some (sta, nv3, s\<lparr>nv_list := l\<rparr>)" for l
    using call_getter_nv_list [OF g, where cfg = cfg and nv = nv2 and s = s and l = l] c by (simp add: d_def)
  have nth: "(?lst[q := nv0\<lparr>depth := D\<rparr>]) ! q = nv0\<lparr>depth := D\<rparr>" using q by simp
  have res: "nv_get_nvObj cfg q s = Some (s\<lparr>nv_list := ?lst[q := nv3]\<rparr>)"
    using q i r sg
    by (simp add: nv_get_nvObj_def Let_def nth d_def [symmetric] nv1_def [symmetric] c')
  have "nv3 = child_node cfg s D i (?lst ! q)"
    by (simp add: child_node_def Let_def d_def [symmetric] nv3_def nv2_def nv1_def nv0_def)
  with res show ?thesis unfolding D_def by simp
qed

lemma get_grp_loop_children:
  assumes singles: "\<forall>j. nv_index_is_single cfg j \<longleftrightarrow> j < n" and n: "n \<le> nv_index_max cfg"
  shows "i \<le> n \<Longrightarrow>
         ms = filter (\<lambda>j. cfgItem_t.group (cfgArray cfg ! j) = pg) [i..<n] \<Longrightarrow>
         p + length ms < length (nv_list s) \<Longrightarrow>
         (\<forall>k<length ms. pv (nv_list s ! (Suc p + k)) = Some (p + k)) \<Longrightarrow>
         (\<forall>j\<in>set ms. is_getter (get_f (cfgArray cfg ! j))
              \<and> (F_NOSTRIP \<in> flags (cfgArray cfg ! j)
                  \<or> length (cfgItem_t.group (cfgArray cfg ! j)) \<le> length (cfgItem_t.token (cfgArray cfg ! j)))) \<Longrightarrow>
         \<exists>l. get_grp_loop cfg pg i p s = Some (s\<lparr>nv_list := l\<rparr>)
            \<and> length l = length (nv_list s)
            \<and> (\<forall>q. q \<le> p \<or> p + length ms < q \<longrightarrow> l ! q = nv_list s ! q)
            \<and> (\<forall>k<length ms. l ! (Suc p + k) =
                   child_node cfg s (child_depth (nv_list s) p) (ms ! k) (nv_list s ! (Suc p + k)))"
proof (induction "n - i" arbitrary: i ms p s)
  case 0
  then have i: "i = n" by simp
  with 0 have ms: "ms = []" by simp
  have "\<not> nv_index_is_single cfg i" using singles i by simp
  then have "get_grp_loop cfg pg i p s = Some s" by (subst get_grp_loop.simps) simp
  then have "get_grp_loop cfg pg i p s = Some (s\<lparr>nv_list := nv_list s\<rparr>)" by simp
  then show ?case unfolding ms by (intro exI [of _ "nv_list s"]) simp
next
  case (Suc m)
  let ?P = "\<lambda>j. cfgItem_t.group (cfgArray cfg ! j) = pg"
  let ?lst = "nv_list s"
  from Suc.hyps(2) have i: "i < n" by simp
  then have single: "nv_index_is_single cfg i" and imax: "i < nv_index_max cfg"
    using singles n by simp_all
  have upt: "[i..<n] = i # [Suc i..<n]" using i by (simp add: upt_conv_Cons)
  have m: "m = n - Suc i" using Suc.hyps(2) by simp
  have si: "Suc i \<le> n" using i by simp
  show ?case
  proof (cases "?P i")
    case False
    then have ms: "ms = filter ?P [Suc i..<n]" using Suc.prems(2) upt by simp
    have step: "get_grp_loop cfg pg i p s = get_grp_loop cfg pg (Suc i) p s"
      using single imax False by (subst get_grp_loop.simps) simp
    from Suc.hyps(1) [OF m si ms Suc.prems(3) Suc.prems(4) Suc.prems(5)] show ?thesis
      unfolding step .
  next
    case True
    define ms' where "ms' = filter ?P [Suc i..<n]"
    have ms: "ms = i # ms'" using Suc.prems(2) upt True by (simp add: ms'_def)
    have room: "Suc p < length ?lst" using Suc.prems(3) ms by simp
    define s0 where "s0 = s\<lparr>nv_list := ?lst[Suc p := (?lst ! Suc p)\<lparr>index := i\<rparr>]\<rparr>"
    have link0: "pv (?lst ! Suc p) = Some p" using Suc.prems(4) ms by auto
    have wf0: "is_getter (get_f (cfgArray cfg ! i))"
      "F_NOSTRIP \<in> flags (cfgArray cfg ! i)
        \<or> length (cfgItem_t.group (cfgArray cfg ! i)) \<le> length (cfgItem_t.token (cfgArray cfg ! i))"
      using Suc.prems(5) ms by simp_all
    have q0: "Suc p < length (nv_list s0)" using room by (simp add: s0_def)
    have pv0: "pv (nv_list s0 ! Suc p) = Some p" using room link0 by (simp add: s0_def)
    have p0: "p < length (nv_list s0)" using room by (simp add: s0_def)
    have ix0: "index (nv_list s0 ! Suc p) = i" using room by (simp add: s0_def)
    have cd: "child_depth (nv_list s0) p = child_depth ?lst p"
      by (simp add: s0_def child_depth_def)
    define c where "c = child_node cfg s (child_depth ?lst p) i (?lst ! Suc p)"
    have c0: "child_node cfg s0 (child_depth (nv_list s0) p) i (nv_list s0 ! Suc p) = c"
      unfolding cd c_def using room by (simp add: s0_def child_node_nv_list child_node_index)
    have get: "nv_get_nvObj cfg (Suc p) s0 = Some (s0\<lparr>nv_list := (nv_list s0)[Suc p := c]\<rparr>)"
      using nv_get_nvObj_child [OF q0 pv0 p0 _ ix0 imax wf0] unfolding c0 by simp
    have np: "valuetype c \<noteq> TYPE_PARENT"
      unfolding c_def child_node_fields by (rule read_kind_getter [OF wf0(1)])
    have dc: "depth c = child_depth ?lst p" unfolding c_def child_node_fields ..
    define s1 where "s1 = s\<lparr>nv_list := ?lst[Suc p := c]\<rparr>"
    have s1: "s0\<lparr>nv_list := (nv_list s0)[Suc p := c]\<rparr> = s1" by (simp add: s0_def s1_def)
    have step: "get_grp_loop cfg pg i p s = get_grp_loop cfg pg (Suc i) (Suc p) s1"
      using single imax True room get
      by (subst get_grp_loop.simps) (simp add: s0_def [symmetric] s1)
    have room1: "Suc p + length ms' < length (nv_list s1)"
      using Suc.prems(3) ms by (simp add: s1_def)
    have links1: "\<forall>k<length ms'. pv (nv_list s1 ! (Suc (Suc p) + k)) = Some (Suc p + k)"
    proof (intro allI impI)
      fix k assume k: "k < length ms'"
      then have "Suc k < length ms" using ms by simp
      with Suc.prems(4) have "pv (?lst ! (Suc p + Suc k)) = Some (p + Suc k)" by blast
      then show "pv (nv_list s1 ! (Suc (Suc p) + k)) = Some (Suc p + k)"
        by (simp add: s1_def)
    qed
    have wf1: "\<forall>j\<in>set ms'. is_getter (get_f (cfgArray cfg ! j))
              \<and> (F_NOSTRIP \<in> flags (cfgArray cfg ! j)
                  \<or> length (cfgItem_t.group (cfgArray cfg ! j)) \<le> length (cfgItem_t.token (cfgArray cfg ! j)))"
      using Suc.prems(5) ms by simp
    from Suc.hyps(1) [OF m si ms'_def room1 links1 wf1] obtain l where
      l: "get_grp_loop cfg pg (Suc i) (Suc p) s1 = Some (s1\<lparr>nv_list := l\<rparr>)"
      and len: "length l = length (nv_list s1)"
      and frame: "\<forall>q. q \<le> Suc p \<or> Suc p + length ms' < q \<longrightarrow> l ! q = nv_list s1 ! q"
      and kids: "\<forall>k<length ms'. l ! (Suc (Suc p) + k) =
                   child_node cfg s1 (child_depth (nv_list s1) (Suc p)) (ms' ! k)
                     (nv_list s1 ! (Suc (Suc p) + k))"
      by (elim exE conjE)
    have cd1: "child_depth (nv_list s1) (Suc p) = child_depth ?lst p"
      using room np dc by (simp add: s1_def child_depth_def)
    have res: "get_grp_loop cfg pg i p s = Some (s\<lparr>nv_list := l\<rparr>)"
      using step l by (simp add: s1_def)
    have len': "length l = length ?lst" using len by (simp add: s1_def)
    have frame': "\<forall>q. q \<le> p \<or> p + length ms < q \<longrightarrow> l ! q = ?lst ! q"
    proof (intro allI impI)
      fix q assume q: "q \<le> p \<or> p + length ms < q"
      then have "q \<le> Suc p \<or> Suc p + length ms' < q" using ms by auto
      with frame have "l ! q = nv_list s1 ! q" by blast
      moreover have "q \<noteq> Suc p" using q ms by auto
      ultimately show "l ! q = ?lst ! q" by (simp add: s1_def)
    qed
    have kids': "\<forall>k<length ms. l ! (Suc p + k) =
                   child_node cfg s (child_depth ?lst p) (ms ! k) (?lst ! (Suc p + k))"
    proof (intro allI impI)
      fix k assume k: "k < length ms"
      show "l ! (Suc p + k) = child_node cfg s (child_depth ?lst p) (ms ! k) (?lst ! (Suc p + k))"
      proof (cases k)
        case 0
        from frame have "l ! Suc p = nv_list s1 ! Suc p" by simp
        then have "l ! Suc p = c" using room by (simp add: s1_def)
        with 0 ms show ?thesis by (simp add: c_def)
      next
        case (Suc k')
        with k ms have k': "k' < length ms'" by simp
        with kids have "l ! (Suc (Suc p) + k') =
                   child_node cfg s1 (child_depth ?lst p) (ms' ! k') (nv_list s1 ! (Suc (Suc p) + k'))"
          unfolding cd1 by blast
        then have "l ! (Suc (Suc p) + k') =
                   child_node cfg s (child_depth ?lst p) (ms' ! k') (?lst ! (Suc (Suc p) + k'))"
          by (simp add: s1_def child_node_nv_list)
        then show ?thesis using Suc ms by simp
      qed
    qed
    show ?thesis
      by (rule exI [of _ l]) (intro conjI res len' frame' kids')
  qed
qed

text \<open>
  Claim C9: \<^verbatim>\<open>get_grp\<close> on the node at position \<open>p\<close>, whose token names a group,
  makes that node a parent and fills the nodes that follow it with one child for each
  descriptor the scan visits whose group field equals the token, in index order, and
  for no other descriptor. The scan runs while \<^verbatim>\<open>nv_index_is_single\<close> holds, that is
  over the \<open>n\<close> single-valued entries that the table starts with. The child of a
  descriptor carries its index, the kind, value and precision that its getter reads
  from the backing storage, its token with the group prefix stripped (or its group
  field blanked under \<^verbatim>\<open>F_NOSTRIP\<close>), and a depth one greater than the parent's (as
  an \<^verbatim>\<open>int8_t\<close>); the links of the nodes and every node before the parent or behind
  the last child are unchanged. The members of the group are bound to the generic
  getters of this file, their tokens are at least as long as the group, and the list
  has room for the children and is linked as \<^verbatim>\<open>nv_reset_nvObj_list\<close> links it.
\<close>

theorem get_grp_expands_group:
  assumes singles: "\<forall>j. nv_index_is_single cfg j \<longleftrightarrow> j < n" and n: "n \<le> nv_index_max cfg"
    and room: "p + length (group_members cfg n (token (nv_list s ! p))) < length (nv_list s)"
    and links: "\<forall>k<length (group_members cfg n (token (nv_list s ! p))).
                  pv (nv_list s ! (Suc p + k)) = Some (p + k)"
    and wf: "\<forall>j\<in>set (group_members cfg n (token (nv_list s ! p))).
                is_getter (get_f (cfgArray cfg ! j))
              \<and> (F_NOSTRIP \<in> flags (cfgArray cfg ! j)
                  \<or> length (cfgItem_t.group (cfgArray cfg ! j)) \<le> length (cfgItem_t.token (cfgArray cfg ! j)))"
  shows "\<exists>l. get_grp cfg p s = Some (STAT_OK, s\<lparr>nv_list := l\<rparr>)
           \<and> length l = length (nv_list s)
           \<and> l ! p = (nv_list s ! p)\<lparr>valuetype := TYPE_PARENT\<rparr>
           \<and> (\<forall>q. q < p \<or> p + length (group_members cfg n (token (nv_list s ! p))) < q
                  \<longrightarrow> l ! q = nv_list s ! q)
           \<and> (\<forall>k<length (group_members cfg n (token (nv_list s ! p))).
                  l ! (Suc p + k) =
                    child_node cfg s (depth (nv_list s ! p) + 1)
                      (group_members cfg n (token (nv_list s ! p)) ! k)
                      (nv_list s ! (Suc p + k)))"
proof -
  let ?lst = "nv_list s"
  let ?pg = "token (?lst ! p)"
  let ?P = "\<lambda>j. cfgItem_t.group (cfgArray cfg ! j) = ?pg"
  define ms where "ms = group_members cfg n ?pg"
  define parent where "parent = (?lst ! p)\<lparr>valuetype := TYPE_PARENT\<rparr>"
  define s0 where "s0 = s\<lparr>nv_list := ?lst[p := parent]\<rparr>"
  have p: "p < length ?lst" using room by simp
  have ms0: "ms = filter ?P [0..<n]" by (simp add: ms_def group_members_def)
  have room0: "p + length ms < length (nv_list s0)" using room by (simp add: s0_def ms_def)
  have links0: "\<forall>k<length ms. pv (nv_list s0 ! (Suc p + k)) = Some (p + k)"
    using links by (simp add: s0_def ms_def)
  have wf0: "\<forall>j\<in>set ms. is_getter (get_f (cfgArray cfg ! j))
              \<and> (F_NOSTRIP \<in> flags (cfgArray cfg ! j)
                  \<or> length (cfgItem_t.group (cfgArray cfg ! j)) \<le> length (cfgItem_t.token (cfgArray cfg ! j)))"
    using wf unfolding ms_def .
  have cd: "child_depth (nv_list s0) p = depth (?lst ! p) + 1"
    using p by (simp add: s0_def child_depth_def parent_def)
  from get_grp_loop_children [OF singles n le0 ms0 room0 links0 wf0] obtain l where
    l: "get_grp_loop cfg ?pg 0 p s0 = Some (s0\<lparr>nv_list := l\<rparr>)"
    and len: "length l = length (nv_list s0)"
    and frame: "\<forall>q. q \<le> p \<or> p + length ms < q \<longrightarrow> l ! q = nv_list s0 ! q"
    and kids: "\<forall>k<length ms. l ! (Suc p + k) =
                 child_node cfg s0 (child_depth (nv_list s0) p) (ms ! k) (nv_list s0 ! (Suc p + k))"
    by (elim exE conjE)
  have res: "get_grp cfg p s = Some (STAT_OK, s\<lparr>nv_list := l\<rparr>)"
    using p l by (simp add: get_grp_def parent_def [symmetric] s0_def [symmetric]) (simp add: s0_def)
  have len': "length l = length ?lst" using len by (simp add: s0_def)
  have par: "l ! p = (?lst ! p)\<lparr>valuetype := TYPE_PARENT\<rparr>"
    using frame p by (simp add: s0_def parent_def)
  have frame': "\<forall>q. q < p \<or> p + length ms < q \<longrightarrow> l ! q = ?lst ! q"
  proof (intro allI impI)
    fix q assume q: "q < p \<or> p + length ms < q"
    then have "q \<le> p \<or> p + length ms < q" by auto
    with frame have "l ! q = nv_list s0 ! q" by blast
    moreover have "q \<noteq> p" using q by auto
    ultimately show "l ! q = ?lst ! q" by (simp add: s0_def)
  qed
  have kids': "\<forall>k<length ms. l ! (Suc p + k) =
                 child_node cfg s (depth (?lst ! p) + 1) (ms ! k) (?lst ! (Suc p + k))"
  proof (intro allI impI)
    fix k assume k: "k < length ms"
    with kids have "l ! (Suc p + k) =
                 child_node cfg s0 (depth (?lst ! p) + 1) (ms ! k) (nv_list s0 ! (Suc p + k))"
      unfolding cd by blast
    then show "l ! (Suc p + k) = child_node cfg s (depth (?lst ! p) + 1) (ms ! k) (?lst ! (Suc p + k))"
      by (simp add: s0_def child_node_nv_list)
  qed
  show ?thesis
    unfolding ms_def [symmetric]
    by (rule exI [of _ l]) (intro conjI res len' par frame' kids')
qed

lemma demo_grp_nv_list:
  "nv_list demo_grp_state =
       [demo_nv\<lparr>nx := Some 1, valuetype := TYPE_PARENT, token := ''r''\<rparr>,
        demo_nv\<lparr>pv := Some 0, nx := Some 2, depth := 1, token := ''x'', index := 7\<rparr>,
        demo_nv\<lparr>pv := Some 1, nx := Some 3, depth := 1\<rparr>,
        demo_nv\<lparr>pv := Some 2, nx := Some 4, depth := 1\<rparr>,
        demo_nv\<lparr>pv := Some 3, depth := 1\<rparr>]"
  by (simp add: demo_grp_state_def demo_list_nv_list)

lemma demo_grp_heaps:
  "tgt_flt demo_grp_state = (\<lambda>a. Finite (of_nat a * 100))" "tgt_u8 demo_grp_state = (\<lambda>_. 2)"
  by (simp_all add: demo_grp_state_def)

lemma upt_0_7: "[0..<7] = [0, 1, 2, 3, 4, 5, 6]"
  by (simp add: eval_nat_numeral)

lemma demo_x_members:
  "group_members demo_cfg 7 (token (nv_list demo_grp_state ! 1)) = [1, 2, 4]"
  by (simp add: group_members_def upt_0_7 demo_grp_nv_list demo_cfg_sel(1) demo_table_def)

lemma float_of_int_2: "float_of_int 2 = Finite 2"
  using float_of_int_exact [of 2] small_is_float_int [of 2] by simp

lemma demo_children:
  "child_node demo_cfg demo_grp_state 2 1 (nv_list demo_grp_state ! 2) =
     demo_nv\<lparr>pv := Some 1, nx := Some 3, index := 1, depth := 2, valuetype := TYPE_FLOAT,
             value := Finite 100, token := ''vm'', group := ''x''\<rparr>"
  "child_node demo_cfg demo_grp_state 2 2 (nv_list demo_grp_state ! 3) =
     demo_nv\<lparr>pv := Some 2, nx := Some 4, index := 2, depth := 2, valuetype := TYPE_FLOAT,
             value := Finite 200, token := ''fr'', group := ''x''\<rparr>"
  "child_node demo_cfg demo_grp_state 2 4 (nv_list demo_grp_state ! 4) =
     demo_nv\<lparr>pv := Some 3, index := 4, depth := 2, valuetype := TYPE_INTEGER,
             value := Finite 2, token := ''am'', group := ''x''\<rparr>"
  by (simp_all add: child_node_def demo_grp_nv_list demo_grp_heaps demo_cfg_sel(1) demo_table_def
      demo_nv_def float_of_int_2)

theorem get_grp_expands_group_witness:
  "(\<forall>j. nv_index_is_single demo_cfg j \<longleftrightarrow> j < 7) \<and> 7 \<le> nv_index_max demo_cfg
   \<and> group_members demo_cfg 7 (token (nv_list demo_grp_state ! 1)) = [1, 2, 4]
   \<and> (\<exists>l. get_grp demo_cfg 1 demo_grp_state = Some (STAT_OK, demo_grp_state\<lparr>nv_list := l\<rparr>)
           \<and> length l = 5
           \<and> l ! 0 = nv_list demo_grp_state ! 0
           \<and> l ! 1 = (nv_list demo_grp_state ! 1)\<lparr>valuetype := TYPE_PARENT\<rparr>
           \<and> l ! 2 = demo_nv\<lparr>pv := Some 1, nx := Some 3, index := 1, depth := 2,
                              valuetype := TYPE_FLOAT, value := Finite 100,
                              token := ''vm'', group := ''x''\<rparr>
           \<and> l ! 3 = demo_nv\<lparr>pv := Some 2, nx := Some 4, index := 2, depth := 2,
                              valuetype := TYPE_FLOAT, value := Finite 200,
                              token := ''fr'', group := ''x''\<rparr>
           \<and> l ! 4 = demo_nv\<lparr>pv := Some 3, index := 4, depth := 2,
                              valuetype := TYPE_INTEGER, value := Finite 2,
                              token := ''am'', group := ''x''\<rparr>)"
proof -
  let ?ms = "group_members demo_cfg 7 (token (nv_list demo_grp_state ! 1))"
  have singles: "\<forall>j. nv_index_is_single demo_cfg j \<longleftrightarrow> j < 7" by (simp add: demo_cfg_sel)
  have n: "7 \<le> nv_index_max demo_cfg" by (simp add: demo_max)
  have ms: "?ms = [1, 2, 4]" by (rule demo_x_members)
  have room: "1 + length ?ms < length (nv_list demo_grp_state)"
    unfolding ms by (simp add: demo_grp_nv_list)
  have links: "\<forall>k<length ?ms. pv (nv_list demo_grp_state ! (Suc 1 + k)) = Some (1 + k)"
    unfolding ms
  proof (intro allI impI)
    fix k assume "k < length [1, 2, 4 :: nat]"
    then have "k = 0 \<or> k = 1 \<or> k = 2" by auto
    then show "pv (nv_list demo_grp_state ! (Suc 1 + k)) = Some (1 + k)"
      by (auto simp: demo_grp_nv_list)
  qed
  have wf: "\<forall>j\<in>set ?ms. is_getter (get_f (cfgArray demo_cfg ! j))
              \<and> (F_NOSTRIP \<in> flags (cfgArray demo_cfg ! j)
                  \<or> length (cfgItem_t.group (cfgArray demo_cfg ! j)) \<le> length (cfgItem_t.token (cfgArray demo_cfg ! j)))"
    unfolding ms by (simp add: demo_cfg_sel(1) demo_table_def is_getter_def)
  have dep: "depth (nv_list demo_grp_state ! 1) + 1 = 2" by (simp add: demo_grp_nv_list)
  from get_grp_expands_group [OF singles n room links wf] obtain l where
    l: "get_grp demo_cfg 1 demo_grp_state = Some (STAT_OK, demo_grp_state\<lparr>nv_list := l\<rparr>)"
    and len: "length l = length (nv_list demo_grp_state)"
    and par: "l ! 1 = (nv_list demo_grp_state ! 1)\<lparr>valuetype := TYPE_PARENT\<rparr>"
    and frame: "\<forall>q. q < 1 \<or> 1 + length ?ms < q \<longrightarrow> l ! q = nv_list demo_grp_state ! q"
    and kids: "\<forall>k<length ?ms. l ! (Suc 1 + k) =
                 child_node demo_cfg demo_grp_state (depth (nv_list demo_grp_state ! 1) + 1)
                   (?ms ! k) (nv_list demo_grp_state ! (Suc 1 + k))"
    by (elim exE conjE)
  have len5: "length l = 5" using len by (simp add: demo_grp_nv_list)
  have l0: "l ! 0 = nv_list demo_grp_state ! 0" using frame by simp
  from kids [rule_format, of 0] kids [rule_format, of 1] kids [rule_format, of 2]
  have k: "l ! 2 = child_node demo_cfg demo_grp_state 2 1 (nv_list demo_grp_state ! 2)"
    "l ! 3 = child_node demo_cfg demo_grp_state 2 2 (nv_list demo_grp_state ! 3)"
    "l ! 4 = child_node demo_cfg demo_grp_state 2 4 (nv_list demo_grp_state ! 4)"
    unfolding dep ms by (simp_all add: eval_nat_numeral)
  show ?thesis
    by (intro conjI singles n ms exI [of _ l] l len5 l0 par k [unfolded demo_children])
qed

subsection \<open>Units-aware accessors\<close>

lemma set_flu_inches:
  assumes "units_mode s = INCHES" and "index nv < nv_index_max cfg"
  shows "set_flu cfg nv s =
           Some (STAT_OK,
                 nv\<lparr>value := float_mul (value nv) (MM_PER_INCH cfg),
                    precision := cfgItem_t.precision (cfgArray cfg ! index nv),
                    valuetype := TYPE_FLOAT\<rparr>,
                 s\<lparr>tgt_flt := (tgt_flt s)(target (cfgArray cfg ! index nv) :=
                                      float_mul (value nv) (MM_PER_INCH cfg))\<rparr>)"
  using assms by (simp add: set_flu_def table_item_Some Let_def)

text \<open>
  Claim C1 says that \<^verbatim>\<open>set_flu\<close> in inches mode converts the value only for the
  backing storage and leaves the node's own value as the caller supplied it. The code
  multiplies \<^verbatim>\<open>nv->value\<close> in place (lemma \<open>set_flu_inches\<close>): for a node that
  carries 1.0 while the units mode is \<^verbatim>\<open>INCHES\<close>, both the storage and the node's
  value hold 25.4 (in single precision) after the call.
\<close>

theorem set_flu_inches_changes_node_value:
  "map_option (\<lambda>(st, nv', s'). (st, value nv', tgt_flt s' 1))
     (set_flu demo_cfg (demo_nv\<lparr>index := 1, value := Finite 1\<rparr>) (demo_state\<lparr>units_mode := INCHES\<rparr>))
   = Some (STAT_OK, Finite (13316915 / 524288), Finite (13316915 / 524288))"
proof -
  have "set_flu demo_cfg (demo_nv\<lparr>index := 1, value := Finite 1\<rparr>) (demo_state\<lparr>units_mode := INCHES\<rparr>) =
          Some (STAT_OK,
                demo_nv\<lparr>index := 1, value := Finite 1,
                   value := float_mul (Finite 1) (MM_PER_INCH demo_cfg),
                   precision := cfgItem_t.precision (cfgArray demo_cfg ! 1),
                   valuetype := TYPE_FLOAT\<rparr>,
                demo_state\<lparr>units_mode := INCHES,
                   tgt_flt := (tgt_flt demo_state)(target (cfgArray demo_cfg ! 1) :=
                                 float_mul (Finite 1) (MM_PER_INCH demo_cfg))\<rparr>)"
    using set_flu_inches [where s = "demo_state\<lparr>units_mode := INCHES\<rparr>"
        and nv = "demo_nv\<lparr>index := 1, value := Finite 1\<rparr>" and cfg = demo_cfg]
    by (simp add: demo_max)
  then show ?thesis
    by (simp add: demo_cfg_def demo_table_def mul_demo del: float_mul.simps)
qed


text \<open>
  Claim C10: \<^verbatim>\<open>get_flu\<close> returns the stored value in canonical units whatever the
  units mode \<open>u\<close> is, and a value set while the units mode is \<^verbatim>\<open>INCHES\<close> reads back
  as its product with \<^verbatim>\<open>MM_PER_INCH\<close>.
\<close>

theorem get_flu_reports_canonical_units:
  assumes "index nv < nv_index_max cfg"
  shows "get_flu cfg nv (s\<lparr>units_mode := u\<rparr>) =
           Some (STAT_OK,
                 nv\<lparr>value := tgt_flt s (target (cfgArray cfg ! index nv)),
                    precision := cfgItem_t.precision (cfgArray cfg ! index nv),
                    valuetype := TYPE_FLOAT\<rparr>,
                 s\<lparr>units_mode := u\<rparr>)
         \<and> (\<exists>nv1 s1 nv2.
               set_flu cfg nv (s\<lparr>units_mode := INCHES\<rparr>) = Some (STAT_OK, nv1, s1)
             \<and> get_flu cfg nv1 s1 = Some (STAT_OK, nv2, s1)
             \<and> value nv2 = float_mul (value nv) (MM_PER_INCH cfg))"
  using assms
  by (simp add: get_flu_def get_flt_def set_flu_inches table_item_Some)

theorem get_flu_reports_canonical_units_witness:
  "index (demo_nv\<lparr>index := 1\<rparr>) < nv_index_max demo_cfg
   \<and> get_flu demo_cfg (demo_nv\<lparr>index := 1\<rparr>) (demo_state\<lparr>units_mode := INCHES\<rparr>) =
           Some (STAT_OK,
                 demo_nv\<lparr>index := 1, value := tgt_flt demo_state 1, valuetype := TYPE_FLOAT\<rparr>,
                 demo_state\<lparr>units_mode := INCHES\<rparr>)"
  using get_flu_reports_canonical_units [where nv = "demo_nv\<lparr>index := 1\<rparr>" and cfg = demo_cfg
      and s = demo_state and u = INCHES]
  by (simp add: demo_max) (simp add: demo_nv_def demo_cfg_def demo_table_def demo_state_def)

text \<open>
  Claim C7: for a node whose index is not below the descriptor count, \<^verbatim>\<open>nv_get\<close> and
  \<^verbatim>\<open>nv_set\<close> return \<^verbatim>\<open>STAT_INTERNAL_RANGE_ERROR\<close> with node and state untouched,
  \<^verbatim>\<open>nv_print\<close> does nothing and \<^verbatim>\<open>nv_persist\<close> leaves the nonvolatile memory alone.
  \<^verbatim>\<open>nv_persist\<close> does not compare the index with the count itself: it returns early
  through \<^verbatim>\<open>nv_index_lt_groups\<close>, so the indexes below the groups are assumed to be
  table indexes.
\<close>

theorem gatekeepers_reject_out_of_range:
  assumes "nv_index_max cfg \<le> index nv"
    and "\<forall>i. nv_index_lt_groups cfg i \<longrightarrow> i < nv_index_max cfg"
  shows "nv_get cfg nv s = Some (STAT_INTERNAL_RANGE_ERROR, nv, s)
       \<and> nv_set cfg nv s = Some (STAT_INTERNAL_RANGE_ERROR, nv, s)
       \<and> nv_print cfg nv s = s
       \<and> nv_persist cfg nv s = Some s"
proof -
  have "\<not> nv_index_lt_groups cfg (index nv)"
    using assms by (meson not_le)
  then have "nv_persist cfg nv s = Some s"
    by (simp add: nv_persist_def)
  with assms(1) show ?thesis
    by (simp add: nv_get_def nv_set_def nv_print_def)
qed

theorem gatekeepers_reject_out_of_range_witness:
  "nv_index_max demo_cfg \<le> index (demo_nv\<lparr>index := 8\<rparr>)
   \<and> nv_get demo_cfg (demo_nv\<lparr>index := 8\<rparr>) demo_state =
         Some (STAT_INTERNAL_RANGE_ERROR, demo_nv\<lparr>index := 8\<rparr>, demo_state)
   \<and> nv_set demo_cfg (demo_nv\<lparr>index := 8\<rparr>) demo_state =
         Some (STAT_INTERNAL_RANGE_ERROR, demo_nv\<lparr>index := 8\<rparr>, demo_state)
   \<and> nv_print demo_cfg (demo_nv\<lparr>index := 8\<rparr>) demo_state = demo_state
   \<and> nv_persist demo_cfg (demo_nv\<lparr>index := 8\<rparr>) demo_state = Some demo_state"
proof -
  have lt: "\<forall>i. nv_index_lt_groups demo_cfg i \<longrightarrow> i < nv_index_max demo_cfg"
    by (simp add: demo_max) (simp add: demo_cfg_def)
  have ge: "nv_index_max demo_cfg \<le> index (demo_nv\<lparr>index := 8\<rparr>)"
    by (simp add: demo_max)
  show ?thesis
    using gatekeepers_reject_out_of_range [OF ge lt, of demo_state] ge by simp
qed

subsection \<open>Boot initialisation\<close>

lemma float_to_uint_range:
  "float_to_uint bits v = Some k \<Longrightarrow> 0 \<le> k \<and> k < 2 ^ bits"
proof -
  assume a: "float_to_uint bits v = Some k"
  then obtain q where q: "v = Finite q" "- 1 < q" "q < 2 ^ bits" "k = (if 0 \<le> q then \<lfloor>q\<rfloor> else 0)"
    by (auto simp: float_to_uint_def split: float.splits if_splits)
  show ?thesis
  proof (cases "0 \<le> q")
    case True
    then have "0 \<le> \<lfloor>q\<rfloor>" by simp
    moreover have "\<lfloor>q\<rfloor> < 2 ^ bits"
    proof -
      have "q < of_int (2 ^ bits)" using q(3) by simp
      then show ?thesis by (simp only: floor_less_iff)
    qed
    ultimately show ?thesis using q(4) True by simp
  next
    case False
    then show ?thesis using q(4) by simp
  qed
qed

lemma uint_word_of_int_bits:
  "float_to_uint 8 v = Some k \<Longrightarrow> uint (word_of_int k :: 8 word) = k"
  "float_to_uint 32 w = Some j \<Longrightarrow> uint (word_of_int j :: 32 word) = j"
  using float_to_uint_range [of 8 v k] float_to_uint_range [of 32 w j]
  by (simp_all add: uint_word_of_int take_bit_int_eq_self)

lemma set_ui8_cell:
  assumes "table_item cfg (index nv) = Some d" "float_to_uint 8 (value nv) = Some k"
  shows "set_ui8 cfg nv s =
           Some (STAT_OK, nv\<lparr>valuetype := TYPE_INTEGER\<rparr>,
                 s\<lparr>tgt_u8 := (tgt_u8 s)(target d := word_of_int k)\<rparr>)"
  using assms by (simp add: set_ui8_def)

text \<open>One call of a setter in millimeters mode.\<close>

lemma call_setter:
  assumes d: "table_item cfg (index nv) = Some d"
    and f: "is_setter (set_f d)" and v: "set_defined d (value nv)"
    and u: "units_mode s = MILLIMETERS"
  shows "\<exists>st nv1 s1. call (set_f d) cfg nv s = Some (st, nv1, s1)
           \<and> value nv1 = value nv \<and> index nv1 = index nv
           \<and> units_mode s1 = MILLIMETERS \<and> nvm s1 = nvm s
           \<and> (\<forall>c. cell_of d (value nv) = Some c \<longrightarrow> cell_holds s1 c (value nv))
           \<and> (\<forall>c w. cell_of d (value nv) \<noteq> Some c \<longrightarrow> cell_holds s1 c w = cell_holds s c w)"
proof -
  have frame8: "cell_holds (s\<lparr>tgt_u8 := (tgt_u8 s)(a := x)\<rparr>) c w = cell_holds s c w" if "c \<noteq> U8 a" for a x c w
    using that by (cases c) simp_all
  have frame32: "cell_holds (s\<lparr>tgt_u32 := (tgt_u32 s)(a := x)\<rparr>) c w = cell_holds s c w" if "c \<noteq> U32 a" for a x c w
    using that by (cases c) simp_all
  have frameF: "cell_holds (s\<lparr>tgt_flt := (tgt_flt s)(a := x)\<rparr>) c w = cell_holds s c w" if "c \<noteq> FLT a" for a x c w
    using that by (cases c) simp_all
  have u8: ?thesis if k: "cell_of d (value nv) = Some (U8 (target d))"
     and c: "call (set_f d) cfg nv s = set_ui8 cfg nv s"
  proof -
    from v k obtain n where n: "float_to_uint 8 (value nv) = Some n"
      by (auto simp: set_defined_def)
    show ?thesis
      unfolding c set_ui8_cell [OF d n] k
      using u n by (simp add: uint_word_of_int_bits frame8)
  qed
  from f consider "set_f d = Set_nul" | "set_f d = Set_ui8" | "set_f d = Set_01" | "set_f d = Set_012"
    | "set_f d = Set_0123" | "set_f d = Set_int" | "set_f d = Set_flt" | "set_f d = Set_flu"
    by (auto simp: is_setter_def)
  then show ?thesis
  proof cases
    case 1
    then show ?thesis using u by (simp add: set_nul_def cell_of_def)
  next
    case 2
    then show ?thesis by (intro u8) (simp_all add: cell_of_def)
  next
    case 3
    show ?thesis
    proof (cases "float_gt (value nv) (Finite 1)")
      case True
      with 3 u show ?thesis by (simp add: set_01_def cell_of_def)
    next
      case False
      with 3 show ?thesis by (intro u8) (simp_all add: cell_of_def set_01_def)
    qed
  next
    case 4
    show ?thesis
    proof (cases "float_gt (value nv) (Finite 2)")
      case True
      with 4 u show ?thesis by (simp add: set_012_def cell_of_def)
    next
      case False
      with 4 show ?thesis by (intro u8) (simp_all add: cell_of_def set_012_def)
    qed
  next
    case 5
    show ?thesis
    proof (cases "float_gt (value nv) (Finite 3)")
      case True
      with 5 u show ?thesis by (simp add: set_0123_def cell_of_def)
    next
      case False
      with 5 show ?thesis by (intro u8) (simp_all add: cell_of_def set_0123_def)
    qed
  next
    case 6
    then have k: "cell_of d (value nv) = Some (U32 (target d))" by (simp add: cell_of_def)
    with v obtain n where n: "float_to_uint 32 (value nv) = Some n"
      by (auto simp: set_defined_def)
    show ?thesis
      using 6 d n u by (simp add: set_int_def k uint_word_of_int_bits frame32)
  next
    case 7
    then have k: "cell_of d (value nv) = Some (FLT (target d))" by (simp add: cell_of_def)
    show ?thesis
      using 7 d u by (simp add: set_flt_def k frameF)
  next
    case 8
    then have k: "cell_of d (value nv) = Some (FLT (target d))" by (simp add: cell_of_def)
    show ?thesis
      using 8 d u by (simp add: set_flu_def k frameF)
  qed
qed

lemma init_inv_skip:
  assumes q: "init_inv cfg s0 val pers j s"
    and f: "F_INITIALIZE \<notin> flags (cfgArray cfg ! j)" and p: "\<not> pers j"
  shows "init_inv cfg s0 val pers (Suc j) s"
proof -
  have nv: "\<forall>i. nvm s i = (if i < Suc j \<and> pers i then val i else nvm s0 i)"
  proof
    fix i
    have "(i < Suc j \<and> pers i) = (i < j \<and> pers i)" using p by (auto simp: less_Suc_eq)
    then show "nvm s i = (if i < Suc j \<and> pers i then val i else nvm s0 i)"
      using q by (simp add: init_inv_def)
  qed
  have cells: "cell_holds s c (val i)"
    if i: "i < Suc j" "F_INITIALIZE \<in> flags (cfgArray cfg ! i)"
      and c: "cell_of (cfgArray cfg ! i) (val i) = Some c"
      and l: "\<forall>k. i < k \<and> k < Suc j \<and> F_INITIALIZE \<in> flags (cfgArray cfg ! k)
                        \<longrightarrow> cell_of (cfgArray cfg ! k) (val k) \<noteq> Some c" for i c
  proof -
    from i f have ij: "i < j" by (cases "i = j") auto
    from l have "\<forall>k. i < k \<and> k < j \<and> F_INITIALIZE \<in> flags (cfgArray cfg ! k)
                        \<longrightarrow> cell_of (cfgArray cfg ! k) (val k) \<noteq> Some c" by auto
    with q ij i(2) c show ?thesis unfolding init_inv_def by blast
  qed
  from q have "units_mode s = MILLIMETERS" by (simp add: init_inv_def)
  with nv cells show ?thesis unfolding init_inv_def by blast
qed

lemma init_inv_step:
  assumes q: "init_inv cfg s0 val pers j s"
    and f: "F_INITIALIZE \<in> flags (cfgArray cfg ! j)"
    and u: "units_mode s1 = MILLIMETERS"
    and m: "nvm s1 = (if pers j then (nvm s)(j := val j) else nvm s)"
    and h: "\<forall>c. cell_of (cfgArray cfg ! j) (val j) = Some c \<longrightarrow> cell_holds s1 c (val j)"
    and fr: "\<forall>c w. cell_of (cfgArray cfg ! j) (val j) \<noteq> Some c \<longrightarrow> cell_holds s1 c w = cell_holds s c w"
  shows "init_inv cfg s0 val pers (Suc j) s1"
proof -
  have nv: "\<forall>i. nvm s1 i = (if i < Suc j \<and> pers i then val i else nvm s0 i)"
  proof
    fix i
    from q have old: "nvm s i = (if i < j \<and> pers i then val i else nvm s0 i)"
      by (simp add: init_inv_def)
    show "nvm s1 i = (if i < Suc j \<and> pers i then val i else nvm s0 i)"
    proof (cases "i = j")
      case True
      with old m show ?thesis by simp
    next
      case False
      then have "(i < Suc j) = (i < j)" by auto
      with old m False show ?thesis by simp
    qed
  qed
  have cells: "cell_holds s1 c (val i)"
    if i: "i < Suc j" "F_INITIALIZE \<in> flags (cfgArray cfg ! i)"
      and c: "cell_of (cfgArray cfg ! i) (val i) = Some c"
      and l: "\<forall>k. i < k \<and> k < Suc j \<and> F_INITIALIZE \<in> flags (cfgArray cfg ! k)
                        \<longrightarrow> cell_of (cfgArray cfg ! k) (val k) \<noteq> Some c" for i c
  proof (cases "i = j")
    case True
    with c h show ?thesis by simp
  next
    case False
    with i have ij: "i < j" by simp
    from l have l': "\<forall>k. i < k \<and> k < j \<and> F_INITIALIZE \<in> flags (cfgArray cfg ! k)
                        \<longrightarrow> cell_of (cfgArray cfg ! k) (val k) \<noteq> Some c" by auto
    from q ij i(2) c l' have old: "cell_holds s c (val i)" unfolding init_inv_def by blast
    from l ij f have "cell_of (cfgArray cfg ! j) (val j) \<noteq> Some c" by simp
    with fr old show ?thesis by simp
  qed
  from nv cells u show ?thesis unfolding init_inv_def by blast
qed

lemma for_each_single_invariant:
  fixes L :: "nvObj_t \<Rightarrow> state \<Rightarrow> (nvObj_t \<times> state) option"
    and S :: "cfgItem_t \<Rightarrow> nvObj_t \<Rightarrow> state \<Rightarrow> (nvObj_t \<times> state) option"
  assumes unfold: "\<And>nv s. L nv s =
     (if \<not> nv_index_is_single cfg (index nv) then Some (nv, s)
      else case table_item cfg (index nv) of
             None \<Rightarrow> None
           | Some d \<Rightarrow>
               if F_INITIALIZE \<in> flags d
               then (case S d nv s of
                       None \<Rightarrow> None
                     | Some (nv1, s1) \<Rightarrow> L (nv1\<lparr>index := index nv1 + 1\<rparr>) s1)
               else L (nv\<lparr>index := index nv + 1\<rparr>) s)"
    and singles: "\<forall>j. nv_index_is_single cfg j \<longleftrightarrow> j < n" and n: "n \<le> nv_index_max cfg"
    and step: "\<And>nv s. index nv < n \<Longrightarrow> F_INITIALIZE \<in> flags (cfgArray cfg ! index nv) \<Longrightarrow>
                 Q (index nv) s \<Longrightarrow>
                 \<exists>nv1 s1. S (cfgArray cfg ! index nv) nv s = Some (nv1, s1)
                    \<and> index nv1 = index nv \<and> Q (Suc (index nv)) s1"
    and skip: "\<And>j s. j < n \<Longrightarrow> F_INITIALIZE \<notin> flags (cfgArray cfg ! j) \<Longrightarrow> Q j s \<Longrightarrow> Q (Suc j) s"
  shows "index nv \<le> n \<Longrightarrow> Q (index nv) s \<Longrightarrow> \<exists>nv' s'. L nv s = Some (nv', s') \<and> Q n s'"
proof (induction "n - index nv" arbitrary: nv s)
  case 0
  then have e: "index nv = n" by simp
  then have "\<not> nv_index_is_single cfg (index nv)" using singles by simp
  then have "L nv s = Some (nv, s)" by (subst unfold) simp
  with 0 e show ?case by simp
next
  case (Suc m)
  then have lt: "index nv < n" by simp
  then have single: "nv_index_is_single cfg (index nv)" using singles by simp
  have ti: "table_item cfg (index nv) = Some (cfgArray cfg ! index nv)"
    using lt n by (simp add: table_item_Some)
  show ?case
  proof (cases "F_INITIALIZE \<in> flags (cfgArray cfg ! index nv)")
    case True
    from step [OF lt True Suc.prems(2)] obtain nv1 s1 where
      s: "S (cfgArray cfg ! index nv) nv s = Some (nv1, s1)" "index nv1 = index nv"
        "Q (Suc (index nv)) s1" by blast
    let ?nv = "nv1\<lparr>index := index nv1 + 1\<rparr>"
    have u: "L nv s = L ?nv s1"
      using single ti True s(1) by (subst unfold) simp
    have i: "index ?nv = Suc (index nv)" using s(2) by simp
    have "m = n - index ?nv" using Suc.hyps(2) i by simp
    moreover have "index ?nv \<le> n" using lt i by simp
    moreover have "Q (index ?nv) s1" using s(3) i by simp
    ultimately have "\<exists>nv' s'. L ?nv s1 = Some (nv', s') \<and> Q n s'" by (rule Suc.hyps(1))
    then show ?thesis unfolding u .
  next
    case False
    let ?nv = "nv\<lparr>index := index nv + 1\<rparr>"
    have u: "L nv s = L ?nv s"
      using single ti False by (subst unfold) simp
    have i: "index ?nv = Suc (index nv)" by simp
    have "m = n - index ?nv" using Suc.hyps(2) i by simp
    moreover have "index ?nv \<le> n" using lt i by simp
    moreover have "Q (index ?nv) s" using skip [OF lt False Suc.prems(2)] i by simp
    ultimately have "\<exists>nv' s'. L ?nv s = Some (nv', s') \<and> Q n s'" by (rule Suc.hyps(1))
    then show ?thesis unfolding u .
  qed
qed

lemma cell_holds_nvm [simp]: "cell_holds (s\<lparr>nvm := x\<rparr>) c w = cell_holds s c w"
  by (cases c) simp_all

lemma cell_holds_nv_list [simp]: "cell_holds (s\<lparr>nv_list := l\<rparr>) c w = cell_holds s c w"
  by (cases c) simp_all

lemma nv_persist_effect:
  assumes "index nv < nv_index_max cfg"
  shows "nv_persist cfg nv s =
           Some (if F_PERSIST \<in> flags (cfgArray cfg ! index nv) \<and> nv_index_lt_groups cfg (index nv)
                    \<and> \<not> DISABLE_PERSISTENCE cfg
                 then s\<lparr>nvm := (nvm s)(index nv := value nv)\<rparr> else s)"
  using assms by (simp add: nv_persist_def table_item_Some write_persistent_value_def)

lemma set_defaults_body_step:
  assumes j: "index nv < nv_index_max cfg"
    and f: "is_setter (set_f (cfgArray cfg ! index nv))"
    and v: "set_defined (cfgArray cfg ! index nv) (def_value (cfgArray cfg ! index nv))"
    and u: "units_mode s = MILLIMETERS"
  shows "\<exists>nv1 s1. set_defaults_body cfg (cfgArray cfg ! index nv) nv s = Some (nv1, s1)
           \<and> index nv1 = index nv \<and> units_mode s1 = MILLIMETERS
           \<and> nvm s1 = (if F_PERSIST \<in> flags (cfgArray cfg ! index nv) \<and> nv_index_lt_groups cfg (index nv)
                            \<and> \<not> DISABLE_PERSISTENCE cfg
                        then (nvm s)(index nv := def_value (cfgArray cfg ! index nv)) else nvm s)
           \<and> (\<forall>c. cell_of (cfgArray cfg ! index nv) (def_value (cfgArray cfg ! index nv)) = Some c
                  \<longrightarrow> cell_holds s1 c (def_value (cfgArray cfg ! index nv)))
           \<and> (\<forall>c w. cell_of (cfgArray cfg ! index nv) (def_value (cfgArray cfg ! index nv)) \<noteq> Some c
                  \<longrightarrow> cell_holds s1 c w = cell_holds s c w)"
proof -
  let ?d = "cfgArray cfg ! index nv"
  let ?nv = "nv\<lparr>value := def_value ?d, token := take TOKEN_LEN (cfgItem_t.token ?d)\<rparr>"
  have ti: "table_item cfg (index ?nv) = Some ?d" using j by (simp add: table_item_Some)
  have v': "set_defined ?d (value ?nv)" using v by simp
  from call_setter [OF ti f v' u] obtain st nv1 s1 where
    c: "call (set_f ?d) cfg ?nv s = Some (st, nv1, s1)"
    and r: "value nv1 = value ?nv" "index nv1 = index ?nv" "units_mode s1 = MILLIMETERS" "nvm s1 = nvm s"
    and h: "\<forall>c. cell_of ?d (value ?nv) = Some c \<longrightarrow> cell_holds s1 c (value ?nv)"
    and fr: "\<forall>c w. cell_of ?d (value ?nv) \<noteq> Some c \<longrightarrow> cell_holds s1 c w = cell_holds s c w"
    by (elim exE conjE)
  have set: "nv_set cfg ?nv s = Some (st, nv1, s1)" using j c by (simp add: nv_set_def)
  have j1: "index nv1 < nv_index_max cfg" using r(2) j by simp
  let ?s2 = "if F_PERSIST \<in> flags ?d \<and> nv_index_lt_groups cfg (index nv) \<and> \<not> DISABLE_PERSISTENCE cfg
             then s1\<lparr>nvm := (nvm s1)(index nv := def_value ?d)\<rparr> else s1"
  have per: "nv_persist cfg nv1 s1 = Some ?s2"
    using nv_persist_effect [OF j1, of s1] r(1,2) by simp
  have body: "set_defaults_body cfg ?d nv s = Some (nv1, ?s2)"
    by (simp add: set_defaults_body_def set per)
  have 1: "index nv1 = index nv" using r(2) by simp
  have 2: "units_mode ?s2 = MILLIMETERS" using r(3) by simp
  have 3: "nvm ?s2 = (if F_PERSIST \<in> flags ?d \<and> nv_index_lt_groups cfg (index nv) \<and> \<not> DISABLE_PERSISTENCE cfg
                        then (nvm s)(index nv := def_value ?d) else nvm s)"
    using r(4) by simp
  have 4: "\<forall>c. cell_of ?d (def_value ?d) = Some c \<longrightarrow> cell_holds ?s2 c (def_value ?d)"
    using h by simp
  have 5: "\<forall>c w. cell_of ?d (def_value ?d) \<noteq> Some c \<longrightarrow> cell_holds ?s2 c w = cell_holds s c w"
    using fr by simp
  show ?thesis
    by (rule exI [of _ nv1], rule exI [of _ ?s2]) (intro conjI body 1 2 3 4 5)
qed

lemma config_init_body_step:
  assumes j: "index nv < nv_index_max cfg"
    and f: "is_setter (set_f (cfgArray cfg ! index nv))"
    and v: "set_defined (cfgArray cfg ! index nv) (nvm s (index nv))"
    and u: "units_mode s = MILLIMETERS"
  shows "\<exists>nv1 s1. config_init_body cfg (cfgArray cfg ! index nv) nv s = Some (nv1, s1)
           \<and> index nv1 = index nv \<and> units_mode s1 = MILLIMETERS \<and> nvm s1 = nvm s
           \<and> (\<forall>c. cell_of (cfgArray cfg ! index nv) (nvm s (index nv)) = Some c
                  \<longrightarrow> cell_holds s1 c (nvm s (index nv)))
           \<and> (\<forall>c w. cell_of (cfgArray cfg ! index nv) (nvm s (index nv)) \<noteq> Some c
                  \<longrightarrow> cell_holds s1 c w = cell_holds s c w)"
proof -
  let ?d = "cfgArray cfg ! index nv"
  let ?nv = "read_persistent_value (nv\<lparr>token := take TOKEN_LEN (cfgItem_t.token ?d)\<rparr>) s"
  have i: "index ?nv = index nv" and val: "value ?nv = nvm s (index nv)"
    by (simp_all add: read_persistent_value_def)
  have ti: "table_item cfg (index ?nv) = Some ?d" using j i by (simp add: table_item_Some)
  have v': "set_defined ?d (value ?nv)" using v val by simp
  from call_setter [OF ti f v' u] obtain st nv1 s1 where
    c: "call (set_f ?d) cfg ?nv s = Some (st, nv1, s1)"
    and r: "value nv1 = value ?nv" "index nv1 = index ?nv" "units_mode s1 = MILLIMETERS" "nvm s1 = nvm s"
    and h: "\<forall>c. cell_of ?d (value ?nv) = Some c \<longrightarrow> cell_holds s1 c (value ?nv)"
    and fr: "\<forall>c w. cell_of ?d (value ?nv) \<noteq> Some c \<longrightarrow> cell_holds s1 c w = cell_holds s c w"
    by (elim exE conjE)
  have set: "nv_set cfg ?nv s = Some (st, nv1, s1)" using j i c by (simp add: nv_set_def)
  have body: "config_init_body cfg ?d nv s = Some (nv1, s1)"
    by (simp add: config_init_body_def set)
  have 1: "index nv1 = index nv" using r(2) i by simp
  have 4: "\<forall>c. cell_of ?d (nvm s (index nv)) = Some c \<longrightarrow> cell_holds s1 c (nvm s (index nv))"
    using h val by simp
  have 5: "\<forall>c w. cell_of ?d (nvm s (index nv)) \<noteq> Some c \<longrightarrow> cell_holds s1 c w = cell_holds s c w"
    using fr val by simp
  show ?thesis
    by (rule exI [of _ nv1], rule exI [of _ s1]) (intro conjI body 1 r(3) r(4) 4 5)
qed

lemma init_inv_start: "units_mode s = MILLIMETERS \<Longrightarrow> init_inv cfg s val pers 0 s"
  by (simp add: init_inv_def)

lemma init_inv_nvm:
  "init_inv cfg s0 val pers k s \<Longrightarrow> nvm s i = (if i < k \<and> pers i then val i else nvm s0 i)"
  by (simp add: init_inv_def)

lemma init_inv_final_writer:
  assumes "init_inv cfg s0 val pers n s" "final_writer cfg val n i c"
  shows "cell_holds s c (val i)"
proof -
  from assms(2) have i: "i < n" "F_INITIALIZE \<in> flags (cfgArray cfg ! i)"
    and c: "cell_of (cfgArray cfg ! i) (val i) = Some c"
    and l: "\<forall>j. i < j \<and> j < n \<and> F_INITIALIZE \<in> flags (cfgArray cfg ! j)
               \<longrightarrow> cell_of (cfgArray cfg ! j) (val j) \<noteq> Some c"
    by (auto simp: final_writer_def)
  from assms(1) have
    "\<forall>i<n. F_INITIALIZE \<in> flags (cfgArray cfg ! i) \<longrightarrow>
            (\<forall>c. cell_of (cfgArray cfg ! i) (val i) = Some c
                 \<and> (\<forall>j. i < j \<and> j < n \<and> F_INITIALIZE \<in> flags (cfgArray cfg ! j)
                        \<longrightarrow> cell_of (cfgArray cfg ! j) (val j) \<noteq> Some c)
                 \<longrightarrow> cell_holds s c (val i))"
    by (simp add: init_inv_def)
  with i c l show ?thesis by blast
qed

lemma set_defaults_loop_effect:
  assumes singles: "\<forall>j. nv_index_is_single cfg j \<longleftrightarrow> j < n" and n: "n \<le> nv_index_max cfg"
    and wf: "\<forall>i<n. F_INITIALIZE \<in> flags (cfgArray cfg ! i) \<longrightarrow>
               is_setter (set_f (cfgArray cfg ! i))
               \<and> set_defined (cfgArray cfg ! i) (def_value (cfgArray cfg ! i))"
    and u: "units_mode s = MILLIMETERS" and i0: "index nv = 0"
  shows "\<exists>nv' s'. set_defaults_loop cfg nv s = Some (nv', s')
           \<and> init_inv cfg s (\<lambda>i. def_value (cfgArray cfg ! i)) (persisted cfg) n s'"
proof -
  let ?val = "\<lambda>i. def_value (cfgArray cfg ! i)"
  let ?Q = "init_inv cfg s ?val (persisted cfg)"
  have step: "\<exists>nv1 s1. set_defaults_body cfg (cfgArray cfg ! index nv) nv t = Some (nv1, s1)
                \<and> index nv1 = index nv \<and> ?Q (Suc (index nv)) s1"
    if lt: "index nv < n" and f: "F_INITIALIZE \<in> flags (cfgArray cfg ! index nv)"
      and q: "?Q (index nv) t" for nv t
  proof -
    have j: "index nv < nv_index_max cfg" using lt n by simp
    have w: "is_setter (set_f (cfgArray cfg ! index nv))"
      "set_defined (cfgArray cfg ! index nv) (def_value (cfgArray cfg ! index nv))"
      using wf lt f by simp_all
    have ut: "units_mode t = MILLIMETERS" using q by (simp add: init_inv_def)
    from set_defaults_body_step [OF j w ut] obtain nv1 s1 where
      b: "set_defaults_body cfg (cfgArray cfg ! index nv) nv t = Some (nv1, s1)"
      and i: "index nv1 = index nv" and u1: "units_mode s1 = MILLIMETERS"
      and m: "nvm s1 = (if F_PERSIST \<in> flags (cfgArray cfg ! index nv) \<and> nv_index_lt_groups cfg (index nv)
                            \<and> \<not> DISABLE_PERSISTENCE cfg
                        then (nvm t)(index nv := def_value (cfgArray cfg ! index nv)) else nvm t)"
      and h: "\<forall>c. cell_of (cfgArray cfg ! index nv) (?val (index nv)) = Some c
                  \<longrightarrow> cell_holds s1 c (?val (index nv))"
      and fr: "\<forall>c w. cell_of (cfgArray cfg ! index nv) (?val (index nv)) \<noteq> Some c
                  \<longrightarrow> cell_holds s1 c w = cell_holds t c w"
      by (elim exE conjE)
    have m': "nvm s1 = (if persisted cfg (index nv) then (nvm t)(index nv := ?val (index nv)) else nvm t)"
      using m f by (simp add: persisted_def)
    have "?Q (Suc (index nv)) s1" by (rule init_inv_step [OF q f u1 m' h fr])
    with b i show ?thesis by blast
  qed
  have skip: "?Q (Suc j) t" if "j < n" "F_INITIALIZE \<notin> flags (cfgArray cfg ! j)" "?Q j t" for j t
    using that by (intro init_inv_skip) (simp_all add: persisted_def)
  have le: "index nv \<le> n" using i0 by simp
  have q0: "?Q (index nv) s" using i0 u by (simp add: init_inv_start)
  show ?thesis
    by (rule for_each_single_invariant
          [where L = "set_defaults_loop cfg" and S = "set_defaults_body cfg" and Q = ?Q
             and cfg = cfg and n = n, OF set_defaults_loop.simps singles n step skip le q0])
qed

lemma config_init_loop_effect:
  assumes singles: "\<forall>j. nv_index_is_single cfg j \<longleftrightarrow> j < n" and n: "n \<le> nv_index_max cfg"
    and wf: "\<forall>i<n. F_INITIALIZE \<in> flags (cfgArray cfg ! i) \<longrightarrow>
               is_setter (set_f (cfgArray cfg ! i))
               \<and> set_defined (cfgArray cfg ! i) (nvm s i)"
    and u: "units_mode s = MILLIMETERS" and i0: "index nv = 0"
  shows "\<exists>nv' s'. config_init_loop cfg nv s = Some (nv', s')
           \<and> init_inv cfg s (nvm s) (\<lambda>i. False) n s'"
proof -
  let ?Q = "init_inv cfg s (nvm s) (\<lambda>i. False)"
  have step: "\<exists>nv1 s1. config_init_body cfg (cfgArray cfg ! index nv) nv t = Some (nv1, s1)
                \<and> index nv1 = index nv \<and> ?Q (Suc (index nv)) s1"
    if lt: "index nv < n" and f: "F_INITIALIZE \<in> flags (cfgArray cfg ! index nv)"
      and q: "?Q (index nv) t" for nv t
  proof -
    have j: "index nv < nv_index_max cfg" using lt n by simp
    have nt: "nvm t = nvm s" using init_inv_nvm [OF q] by (simp add: fun_eq_iff)
    have w: "is_setter (set_f (cfgArray cfg ! index nv))"
      "set_defined (cfgArray cfg ! index nv) (nvm t (index nv))"
      using wf lt f nt by simp_all
    have ut: "units_mode t = MILLIMETERS" using q by (simp add: init_inv_def)
    from config_init_body_step [OF j w ut] obtain nv1 s1 where
      b: "config_init_body cfg (cfgArray cfg ! index nv) nv t = Some (nv1, s1)"
      and i: "index nv1 = index nv" and u1: "units_mode s1 = MILLIMETERS"
      and m: "nvm s1 = nvm t"
      and h: "\<forall>c. cell_of (cfgArray cfg ! index nv) (nvm t (index nv)) = Some c
                  \<longrightarrow> cell_holds s1 c (nvm t (index nv))"
      and fr: "\<forall>c w. cell_of (cfgArray cfg ! index nv) (nvm t (index nv)) \<noteq> Some c
                  \<longrightarrow> cell_holds s1 c w = cell_holds t c w"
      by (elim exE conjE)
    have m': "nvm s1 = (if False then (nvm t)(index nv := nvm s (index nv)) else nvm t)"
      using m by simp
    have h': "\<forall>c. cell_of (cfgArray cfg ! index nv) (nvm s (index nv)) = Some c
                  \<longrightarrow> cell_holds s1 c (nvm s (index nv))" using h nt by simp
    have fr': "\<forall>c w. cell_of (cfgArray cfg ! index nv) (nvm s (index nv)) \<noteq> Some c
                  \<longrightarrow> cell_holds s1 c w = cell_holds t c w" using fr nt by simp
    have "?Q (Suc (index nv)) s1" by (rule init_inv_step [OF q f u1 m' h' fr'])
    with b i show ?thesis by blast
  qed
  have skip: "?Q (Suc j) t" if "j < n" "F_INITIALIZE \<notin> flags (cfgArray cfg ! j)" "?Q j t" for j t
    using that by (intro init_inv_skip) simp_all
  have le: "index nv \<le> n" using i0 by simp
  have q0: "?Q (index nv) s" using i0 u by (simp add: init_inv_start)
  show ?thesis
    by (rule for_each_single_invariant
          [where L = "config_init_loop cfg" and S = "config_init_body cfg" and Q = ?Q
             and cfg = cfg and n = n, OF config_init_loop.simps singles n step skip le q0])
qed

lemma nv_reset_nvObj_list_frame:
  assumes "nv_reset_nvObj_list s = Some (p, s1)"
  shows "p = nv_body \<and> length (nv_list s1) = length (nv_list s) \<and> nvm s1 = nvm s
         \<and> tgt_u8 s1 = tgt_u8 s \<and> tgt_u32 s1 = tgt_u32 s \<and> tgt_flt s1 = tgt_flt s"
  using assms by (auto simp: nv_reset_nvObj_list_def Let_def split: if_splits)

lemma nv_reset_nvObj_list_Some:
  "nv_list s \<noteq> [] \<Longrightarrow> \<exists>s1. nv_reset_nvObj_list s = Some (nv_body, s1)"
  by (simp add: nv_reset_nvObj_list_def Let_def)

lemma init_inv_frame:
  assumes "init_inv cfg s0 val pers k s" "nvm s0 = nvm t0"
  shows "init_inv cfg t0 val pers k (s\<lparr>nv_list := l\<rparr>)"
  using assms by (simp add: init_inv_def)

text \<open>The effect of the boot sequencer, in both of its cases.\<close>

lemma config_init_effect:
  assumes singles: "\<forall>j. nv_index_is_single cfg j \<longleftrightarrow> j < n" and n: "n \<le> nv_index_max cfg"
    and len: "nv_body < length (nv_list s)"
    and fs: "\<not> fp_FALSE cfg (Finite 1)"
    and wf: "\<forall>i<n. F_INITIALIZE \<in> flags (cfgArray cfg ! i) \<longrightarrow>
               is_setter (set_f (cfgArray cfg ! i))
               \<and> set_defined (cfgArray cfg ! i) (boot_value cfg s i)"
  shows "\<exists>s'. config_init cfg s = Some s'
           \<and> init_inv cfg s (boot_value cfg s) (\<lambda>i. boot_defaults cfg s \<and> persisted cfg i) n s'"
proof -
  from len have "nv_list s \<noteq> []" by auto
  from nv_reset_nvObj_list_Some [OF this] obtain s1 where
    r: "nv_reset_nvObj_list s = Some (nv_body, s1)" by blast
  from nv_reset_nvObj_list_frame [OF r] have
    l1: "length (nv_list s1) = length (nv_list s)" and m1: "nvm s1 = nvm s" by simp_all
  let ?s2 = "cm_set_units_mode MILLIMETERS s1"
  let ?nv = "read_persistent_value ((nv_list ?s2 ! nv_body)\<lparr>index := 0\<rparr>) ?s2"
  have u2: "units_mode ?s2 = MILLIMETERS" and m2: "nvm ?s2 = nvm s"
    using m1 by (simp_all add: cm_set_units_mode_def)
  have v: "value ?nv = nvm s 0"
    using m1 by (simp add: read_persistent_value_def cm_set_units_mode_def)
  have bv: "boot_value cfg ?s2 = boot_value cfg s" "boot_defaults cfg ?s2 = boot_defaults cfg s"
    using m2 by (simp_all add: boot_value_def boot_defaults_def fun_eq_iff)
  have nl: "\<not> length (nv_list s1) \<le> nv_body" using len l1 by simp
  show ?thesis
  proof (cases "boot_defaults cfg s")
    case True
    then have ne: "float_ne (value ?nv) (fw_build cfg)" using v by (simp add: boot_defaults_def)
    have val: "boot_value cfg s = (\<lambda>i. def_value (cfgArray cfg ! i))"
      using True by (simp add: boot_value_def fun_eq_iff)
    have pe: "(\<lambda>i. boot_defaults cfg s \<and> persisted cfg i) = persisted cfg"
      using True by simp
    have wf': "\<forall>i<n. F_INITIALIZE \<in> flags (cfgArray cfg ! i) \<longrightarrow>
               is_setter (set_f (cfgArray cfg ! i))
               \<and> set_defined (cfgArray cfg ! i) (def_value (cfgArray cfg ! i))"
      using wf val by simp
    have i0: "index (?nv\<lparr>value := Finite 1, index := 0\<rparr>) = 0" by simp
    from set_defaults_loop_effect [OF singles n wf' u2 i0] obtain nv' s3 where
      lp: "set_defaults_loop cfg (?nv\<lparr>value := Finite 1, index := 0\<rparr>) ?s2 = Some (nv', s3)"
      and q: "init_inv cfg ?s2 (\<lambda>i. def_value (cfgArray cfg ! i)) (persisted cfg) n s3"
      by blast
    have sd: "set_defaults cfg (?nv\<lparr>value := Finite 1\<rparr>) ?s2 = Some (STAT_OK, nv', s3)"
      using fs lp by (simp add: set_defaults_def cm_set_units_mode_def)
    have ci: "config_init cfg s = Some (s3\<lparr>nv_list := (nv_list s3)[nv_body := nv']\<rparr>)"
      unfolding config_init_def using r nl ne sd by (simp add: Let_def)
    have "init_inv cfg s (boot_value cfg s) (\<lambda>i. boot_defaults cfg s \<and> persisted cfg i) n
            (s3\<lparr>nv_list := (nv_list s3)[nv_body := nv']\<rparr>)"
      unfolding val pe by (rule init_inv_frame [OF q m2])
    with ci show ?thesis by blast
  next
    case False
    then have ne: "\<not> float_ne (value ?nv) (fw_build cfg)" using v by (simp add: boot_defaults_def)
    have val: "boot_value cfg s = nvm ?s2"
      using False m2 by (simp add: boot_value_def fun_eq_iff)
    have pe: "(\<lambda>i. boot_defaults cfg s \<and> persisted cfg i) = (\<lambda>i. False)"
      using False by simp
    have wf': "\<forall>i<n. F_INITIALIZE \<in> flags (cfgArray cfg ! i) \<longrightarrow>
               is_setter (set_f (cfgArray cfg ! i))
               \<and> set_defined (cfgArray cfg ! i) (nvm ?s2 i)"
      using wf val by simp
    have i0: "index (?nv\<lparr>index := 0\<rparr>) = 0" by simp
    from config_init_loop_effect [OF singles n wf' u2 i0] obtain nv' s3 where
      lp: "config_init_loop cfg (?nv\<lparr>index := 0\<rparr>) ?s2 = Some (nv', s3)"
      and q: "init_inv cfg ?s2 (nvm ?s2) (\<lambda>i. False) n s3"
      by blast
    have ci: "config_init cfg s = Some (s3\<lparr>nv_list := (nv_list s3)[nv_body := nv']\<rparr>)"
      unfolding config_init_def using r nl ne lp by (simp add: Let_def)
    have "init_inv cfg s (boot_value cfg s) (\<lambda>i. boot_defaults cfg s \<and> persisted cfg i) n
            (s3\<lparr>nv_list := (nv_list s3)[nv_body := nv']\<rparr>)"
      unfolding val pe by (rule init_inv_frame [OF q m2])
    with ci show ?thesis by blast
  qed
qed

text \<open>
  Claim C6, as amended. Let the table start with \<open>n\<close> single-valued entries, every
  entry with \<^verbatim>\<open>F_INITIALIZE\<close> be bound to a generic setter that can take the value it
  is given, and the node list have a body. Then \<^verbatim>\<open>config_init\<close> returns, the units
  mode is \<^verbatim>\<open>MILLIMETERS\<close>, and
  \<^item> if record 0 differs from the build number, every descriptor with
    \<^verbatim>\<open>F_INITIALIZE\<close>, in table order, has been set to its default: the cell its setter
    writes holds the default (unless a later descriptor wrote the same cell, or the
    setter stores nothing or refuses the default), and its nonvolatile record holds
    the default if the descriptor also has \<^verbatim>\<open>F_PERSIST\<close>, its index is below the
    groups and persistence is not disabled; every other record is unchanged;
  \<^item> if record 0 equals the build number, the cell of every descriptor with
    \<^verbatim>\<open>F_INITIALIZE\<close> holds the value of its nonvolatile record (with the same
    exceptions), and no record is changed.
\<close>

theorem config_init_defaults_or_load:
  assumes singles: "\<forall>j. nv_index_is_single cfg j \<longleftrightarrow> j < n" and n: "n \<le> nv_index_max cfg"
    and len: "nv_body < length (nv_list s)"
    and fs: "\<not> fp_FALSE cfg (Finite 1)"
    and wf: "\<forall>i<n. F_INITIALIZE \<in> flags (cfgArray cfg ! i) \<longrightarrow>
               is_setter (set_f (cfgArray cfg ! i))
               \<and> set_defined (cfgArray cfg ! i) (boot_value cfg s i)"
  shows "\<exists>s'. config_init cfg s = Some s'
           \<and> units_mode s' = MILLIMETERS
           \<and> (\<forall>i. nvm s' i = (if boot_defaults cfg s \<and> i < n \<and> persisted cfg i
                                then def_value (cfgArray cfg ! i) else nvm s i))
           \<and> (\<forall>i c. final_writer cfg (boot_value cfg s) n i c
                    \<longrightarrow> cell_holds s' c (boot_value cfg s i))"
proof -
  from config_init_effect [OF singles n len fs wf] obtain s' where
    ci: "config_init cfg s = Some s'"
    and q: "init_inv cfg s (boot_value cfg s) (\<lambda>i. boot_defaults cfg s \<and> persisted cfg i) n s'"
    by blast
  have u: "units_mode s' = MILLIMETERS" using q by (simp add: init_inv_def)
  have m: "\<forall>i. nvm s' i = (if boot_defaults cfg s \<and> i < n \<and> persisted cfg i
                                then def_value (cfgArray cfg ! i) else nvm s i)"
    using init_inv_nvm [OF q] by (auto simp: boot_value_def)
  have c: "\<forall>i c. final_writer cfg (boot_value cfg s) n i c
                    \<longrightarrow> cell_holds s' c (boot_value cfg s i)"
    using init_inv_final_writer [OF q] by blast
  show ?thesis by (rule exI [of _ s']) (intro conjI ci u m c)
qed

lemma demo_boot_sel:
  "nvm demo_boot_state = (\<lambda>_. Finite 0)" "length (nv_list demo_boot_state) = 5"
  by (simp_all add: demo_boot_state_def demo_state_def)

lemma demo_boot_defaults: "boot_defaults demo_cfg demo_boot_state"
  by (simp add: boot_defaults_def demo_boot_sel demo_cfg_sel float_ne_def)

lemma demo_boot_value: "boot_value demo_cfg demo_boot_state i = def_value (demo_table ! i)"
  by (simp add: boot_value_def demo_boot_defaults demo_cfg_sel)

lemma demo_boot_hyps:
  "\<forall>j. nv_index_is_single demo_cfg j \<longleftrightarrow> j < 7"
  "7 \<le> nv_index_max demo_cfg"
  "nv_body < length (nv_list demo_boot_state)"
  "\<not> fp_FALSE demo_cfg (Finite 1)"
  by (simp_all add: demo_cfg_sel demo_max demo_boot_sel nv_body_def) (simp add: demo_cfg_def)

lemma demo_boot_wf:
  "\<forall>i<7. F_INITIALIZE \<in> flags (cfgArray demo_cfg ! i) \<longrightarrow>
       is_setter (set_f (cfgArray demo_cfg ! i))
       \<and> set_defined (cfgArray demo_cfg ! i) (boot_value demo_cfg demo_boot_state i)"
proof (intro allI impI)
  fix i :: nat assume "i < 7" and f: "F_INITIALIZE \<in> flags (cfgArray demo_cfg ! i)"
  then have "i \<in> set [0..<7]" by simp
  then have "i = 0 \<or> i = 1 \<or> i = 2 \<or> i = 3 \<or> i = 4 \<or> i = 5 \<or> i = 6"
    unfolding upt_0_7 by simp
  then show "is_setter (set_f (cfgArray demo_cfg ! i))
       \<and> set_defined (cfgArray demo_cfg ! i) (boot_value demo_cfg demo_boot_state i)"
    using f
    by (elim disjE)
      (simp_all add: demo_boot_value demo_cfg_sel(1) demo_table_def is_setter_def set_defined_def
        cell_of_def float_to_uint_def)
qed

lemma demo_final_writers:
  "final_writer demo_cfg (boot_value demo_cfg demo_boot_state) 7 5 (FLT 4)"
  "final_writer demo_cfg (boot_value demo_cfg demo_boot_state) 7 4 (U8 0)"
  by (simp_all add: final_writer_def demo_boot_value demo_cfg_sel(1) demo_table_def cell_of_def)

lemma demo_loaded_sel:
  "nvm demo_loaded_state = (\<lambda>i. if i = 0 then Finite 440 else Finite 2)"
  "length (nv_list demo_loaded_state) = 5"
  by (simp_all add: demo_loaded_state_def demo_boot_state_def demo_state_def)

lemma demo_loaded: "\<not> boot_defaults demo_cfg demo_loaded_state"
  by (simp add: boot_defaults_def demo_loaded_sel demo_cfg_sel float_ne_def)

lemma demo_loaded_value:
  "boot_value demo_cfg demo_loaded_state i = (if i = 0 then Finite 440 else Finite 2)"
  by (simp add: boot_value_def demo_loaded demo_loaded_sel)

lemma demo_loaded_hyps:
  "\<forall>j. nv_index_is_single demo_cfg j \<longleftrightarrow> j < 7"
  "7 \<le> nv_index_max demo_cfg"
  "nv_body < length (nv_list demo_loaded_state)"
  "\<not> fp_FALSE demo_cfg (Finite 1)"
  by (simp_all add: demo_cfg_sel demo_max demo_loaded_sel nv_body_def) (simp add: demo_cfg_def)

lemma demo_loaded_wf:
  "\<forall>i<7. F_INITIALIZE \<in> flags (cfgArray demo_cfg ! i) \<longrightarrow>
       is_setter (set_f (cfgArray demo_cfg ! i))
       \<and> set_defined (cfgArray demo_cfg ! i) (boot_value demo_cfg demo_loaded_state i)"
proof (intro allI impI)
  fix i :: nat assume "i < 7" and f: "F_INITIALIZE \<in> flags (cfgArray demo_cfg ! i)"
  then have "i \<in> set [0..<7]" by simp
  then have "i = 0 \<or> i = 1 \<or> i = 2 \<or> i = 3 \<or> i = 4 \<or> i = 5 \<or> i = 6"
    unfolding upt_0_7 by simp
  then show "is_setter (set_f (cfgArray demo_cfg ! i))
       \<and> set_defined (cfgArray demo_cfg ! i) (boot_value demo_cfg demo_loaded_state i)"
    using f
    by (elim disjE)
      (simp_all add: demo_loaded_value demo_cfg_sel(1) demo_table_def is_setter_def set_defined_def
        cell_of_def float_to_uint_def)
qed

lemma demo_loaded_final_writers:
  "final_writer demo_cfg (boot_value demo_cfg demo_loaded_state) 7 5 (FLT 4)"
  "final_writer demo_cfg (boot_value demo_cfg demo_loaded_state) 7 4 (U8 0)"
  by (simp_all add: final_writer_def demo_loaded_value demo_cfg_sel(1) demo_table_def cell_of_def)

lemma uint8_is_2: "Some 2 = Some (uint (w :: 8 word)) \<Longrightarrow> w = 2"
proof -
  assume "Some 2 = Some (uint w)"
  then have "uint w = 2" by simp
  then have "word_of_int (uint w) = (word_of_int 2 :: 8 word)" by (rule arg_cong)
  then show ?thesis by simp
qed

lemma demo_persisted: "persisted demo_cfg 2" "\<not> persisted demo_cfg 5"
  by (simp_all add: persisted_def demo_cfg_sel demo_table_def)

lemma uint8_is_1: "Some 1 = Some (uint (w :: 8 word)) \<Longrightarrow> w = 1"
  by (metis option.inject uint_1_eq word_uint_eq_iff)

theorem config_init_defaults_or_load_witness:
  "(\<exists>s'. config_init demo_cfg demo_boot_state = Some s'
      \<and> units_mode s' = MILLIMETERS
      \<and> nvm s' 2 = Finite 800 \<and> nvm s' 5 = Finite 0
      \<and> tgt_flt s' 4 = Finite 100 \<and> tgt_u8 s' 0 = 1)
   \<and> (\<exists>s'. config_init demo_cfg demo_loaded_state = Some s'
      \<and> units_mode s' = MILLIMETERS
      \<and> nvm s' 0 = Finite 440 \<and> nvm s' 2 = Finite 2 \<and> nvm s' 5 = Finite 2
      \<and> tgt_flt s' 4 = Finite 2 \<and> tgt_u8 s' 0 = 2)"
proof -
  have loaded: "\<exists>s'. config_init demo_cfg demo_loaded_state = Some s'
      \<and> units_mode s' = MILLIMETERS
      \<and> nvm s' 0 = Finite 440 \<and> nvm s' 2 = Finite 2 \<and> nvm s' 5 = Finite 2
      \<and> tgt_flt s' 4 = Finite 2 \<and> tgt_u8 s' 0 = 2"
  proof -
    from config_init_defaults_or_load [OF demo_loaded_hyps demo_loaded_wf] obtain s' where
      ci: "config_init demo_cfg demo_loaded_state = Some s'"
      and u: "units_mode s' = MILLIMETERS"
      and m: "\<forall>i. nvm s' i = (if boot_defaults demo_cfg demo_loaded_state \<and> i < 7 \<and> persisted demo_cfg i
                                  then def_value (cfgArray demo_cfg ! i) else nvm demo_loaded_state i)"
      and c: "\<forall>i c. final_writer demo_cfg (boot_value demo_cfg demo_loaded_state) 7 i c
                      \<longrightarrow> cell_holds s' c (boot_value demo_cfg demo_loaded_state i)"
      by (elim exE conjE)
    have m0: "nvm s' 0 = Finite 440"
      using m [rule_format, of 0] by (simp add: demo_loaded demo_loaded_sel)
    have m2: "nvm s' 2 = Finite 2"
      using m [rule_format, of 2] by (simp add: demo_loaded demo_loaded_sel)
    have m5: "nvm s' 5 = Finite 2"
      using m [rule_format, of 5] by (simp add: demo_loaded demo_loaded_sel)
    have c5: "tgt_flt s' 4 = Finite 2"
      using c [rule_format, OF demo_loaded_final_writers(1)] by (simp add: demo_loaded_value)
    have "cell_holds s' (U8 0) (Finite 2)"
      using c [rule_format, OF demo_loaded_final_writers(2)] by (simp add: demo_loaded_value)
    then have c4: "tgt_u8 s' 0 = 2"
      by (intro uint8_is_2) (simp add: float_to_uint_def)
    show ?thesis by (rule exI [of _ s']) (intro conjI ci u m0 m2 m5 c5 c4)
  qed
  from config_init_defaults_or_load [OF demo_boot_hyps demo_boot_wf] obtain s' where
    ci: "config_init demo_cfg demo_boot_state = Some s'"
    and u: "units_mode s' = MILLIMETERS"
    and m: "\<forall>i. nvm s' i = (if boot_defaults demo_cfg demo_boot_state \<and> i < 7 \<and> persisted demo_cfg i
                                then def_value (cfgArray demo_cfg ! i) else nvm demo_boot_state i)"
    and c: "\<forall>i c. final_writer demo_cfg (boot_value demo_cfg demo_boot_state) 7 i c
                    \<longrightarrow> cell_holds s' c (boot_value demo_cfg demo_boot_state i)"
    by (elim exE conjE)
  have m1: "nvm s' 2 = Finite 800"
    using m [rule_format, of 2]
    by (simp add: demo_boot_defaults demo_persisted demo_cfg_sel(1) demo_table_def)
  have m5: "nvm s' 5 = Finite 0"
    using m [rule_format, of 5] by (simp add: demo_persisted demo_boot_sel)
  have c5: "tgt_flt s' 4 = Finite 100"
    using c [rule_format, OF demo_final_writers(1)] by (simp add: demo_boot_value demo_table_def)
  have "cell_holds s' (U8 0) (Finite 1)"
    using c [rule_format, OF demo_final_writers(2)] by (simp add: demo_boot_value demo_table_def)
  then have c4: "tgt_u8 s' 0 = 1"
    by (intro uint8_is_1) (simp add: float_to_uint_def)
  have "\<exists>s'. config_init demo_cfg demo_boot_state = Some s'
      \<and> units_mode s' = MILLIMETERS
      \<and> nvm s' 2 = Finite 800 \<and> nvm s' 5 = Finite 0
      \<and> tgt_flt s' 4 = Finite 100 \<and> tgt_u8 s' 0 = 1"
    by (rule exI [of _ s']) (intro conjI ci u m1 m5 c5 c4)
  then show ?thesis using loaded by (rule conjI)
qed

text \<open>
  Claim C6 as stated fails: a default reaches the nonvolatile memory only through
  \<^verbatim>\<open>nv_persist\<close>, which writes nothing for a descriptor without \<^verbatim>\<open>F_PERSIST\<close>.
  Descriptor 5 of the example table has \<^verbatim>\<open>F_INITIALIZE\<close> and not \<^verbatim>\<open>F_PERSIST\<close>, and
  record 0 differs from the build number: after \<^verbatim>\<open>config_init\<close> its storage holds the
  default 100, and its nonvolatile record still holds 0.
\<close>

theorem boot_default_not_persisted_counterexample:
  "float_ne (nvm demo_boot_state 0) (fw_build demo_cfg)
   \<and> F_INITIALIZE \<in> flags (cfgArray demo_cfg ! 5)
   \<and> def_value (cfgArray demo_cfg ! 5) = Finite 100
   \<and> (\<exists>s'. config_init demo_cfg demo_boot_state = Some s'
          \<and> tgt_flt s' 4 = Finite 100 \<and> nvm s' 5 = Finite 0)"
proof -
  from config_init_effect [OF demo_boot_hyps demo_boot_wf] obtain s' where
    ci: "config_init demo_cfg demo_boot_state = Some s'"
    and q: "init_inv demo_cfg demo_boot_state (boot_value demo_cfg demo_boot_state)
              (\<lambda>i. boot_defaults demo_cfg demo_boot_state \<and> persisted demo_cfg i) 7 s'"
    by blast
  have m5: "nvm s' 5 = Finite 0"
    using init_inv_nvm [OF q, of 5] by (simp add: demo_persisted demo_boot_sel)
  have c5: "tgt_flt s' 4 = Finite 100"
    using init_inv_final_writer [OF q demo_final_writers(1)]
    by (simp add: demo_boot_value demo_table_def)
  have ne: "float_ne (nvm demo_boot_state 0) (fw_build demo_cfg)"
    using demo_boot_defaults by (simp add: boot_defaults_def)
  have d5: "F_INITIALIZE \<in> flags (cfgArray demo_cfg ! 5)" "def_value (cfgArray demo_cfg ! 5) = Finite 100"
    by (simp_all add: demo_cfg_sel(1) demo_table_def)
  show ?thesis
    by (intro conjI ne d5 exI [of _ s'] ci c5 m5)
qed

end
